theory Spec2Isabelle
  imports Complex_Main "HOL-Library.AList"
begin

section \<open>Python values, errors and dictionaries\<close>

text \<open>
  The module \<open>chip_estimates_utils.py\<close> computes with Python numbers. They are modelled as
  exact reals: rounding, infinities and NaN of IEEE doubles are outside the model. What the
  interpreter raises is a value of type \<open>error\<close>; a function that can raise returns
  \<open>error + 'a\<close>, with \<open>Inl\<close> for the exception.
\<close>

datatype error = KeyError | ZeroDivisionError | ValueError | IndexError

text \<open>
  A Python \<open>dict\<close> keeps its keys in insertion order and holds every key once. It is an
  association list; \<open>py_dict\<close> says that no key occurs twice.
\<close>

type_synonym ('k, 'v) dict = "('k \<times> 'v) list"

definition py_dict :: "('k, 'v) dict \<Rightarrow> bool" where
  "py_dict d = distinct (map fst d)"

text \<open>\<open>d[k]\<close>: raises \<open>KeyError\<close> for an absent key.\<close>

definition dict_lookup :: "('k, 'v) dict \<Rightarrow> 'k \<Rightarrow> error + 'v" where
  "dict_lookup d k = (case map_of d k of None \<Rightarrow> Inl KeyError | Some v \<Rightarrow> Inr v)"

text \<open>\<open>d.get(k, default)\<close>.\<close>

definition dict_get :: "('k, 'v) dict \<Rightarrow> 'k \<Rightarrow> 'v \<Rightarrow> 'v" where
  "dict_get d k dflt = (case map_of d k of None \<Rightarrow> dflt | Some v \<Rightarrow> v)"

text \<open>
  \<open>d[k] = v\<close>: an existing key keeps its position and gets the new value, a new key goes to
  the end.
\<close>

definition dict_set :: "('k, 'v) dict \<Rightarrow> 'k \<Rightarrow> 'v \<Rightarrow> ('k, 'v) dict" where
  "dict_set d k v = AList.update k v d"

text \<open>\<open>a / b\<close> on Python numbers: raises \<open>ZeroDivisionError\<close> when \<open>b\<close> is zero.\<close>

definition py_div :: "real \<Rightarrow> real \<Rightarrow> error + real" where
  "py_div a b = (if b = 0 then Inl ZeroDivisionError else Inr (a / b))"

section \<open>The Monte Carlo engine: \<open>estimate_chip_sales\<close>\<close>

text \<open>
  The three sampling callbacks draw random numbers, so they are state transformers over a
  state \<open>'s\<close> of the caller's choice (the random stream, and whatever else the closures
  capture): each takes the state and returns its value with the next state. The engine
  threads that state through the calls in the order the source makes them.

  The result is the dictionary \<open>{quarter: {version: [samples]}}\<close>.
\<close>

type_synonym ('q, 'v) results = "('q, ('v, real list) dict) dict"

text \<open>
  \<open>results = {quarter: {version: [] for version in versions} for quarter in quarters}\<close>.
  A comprehension stores its items one after the other, so a repeated key is stored once.
\<close>

definition init_row :: "'v list \<Rightarrow> ('v, real list) dict" where
  "init_row versions = fold (\<lambda>version d. dict_set d version []) versions []"

definition init_results :: "'q list \<Rightarrow> 'v list \<Rightarrow> ('q, 'v) results" where
  "init_results quarters versions =
     fold (\<lambda>quarter d. dict_set d quarter (init_row versions)) quarters []"

text \<open>\<open>results[quarter][version].append(chips)\<close>.\<close>

definition append_sample ::
  "('q, 'v) results \<Rightarrow> 'q \<Rightarrow> 'v \<Rightarrow> real \<Rightarrow> error + ('q, 'v) results" where
  "append_sample results quarter version chips =
     (case dict_lookup results quarter of
        Inl e \<Rightarrow> Inl e
      | Inr row \<Rightarrow>
          (case dict_lookup row version of
             Inl e \<Rightarrow> Inl e
           | Inr cell \<Rightarrow>
               Inr (dict_set results quarter (dict_set row version (cell @ [chips])))))"

text \<open>
  The body of \<open>for version in versions\<close>: the share is looked up with default 0; a positive
  share samples a price and divides, anything else gives 0 without a call of the price
  callback; the value is appended to the cell.
\<close>

definition version_body ::
  "('q \<Rightarrow> 'v \<Rightarrow> 's \<Rightarrow> real \<times> 's) \<Rightarrow> 'q \<Rightarrow> real \<Rightarrow> ('v, real) dict \<Rightarrow> 'v \<Rightarrow>
   ('q, 'v) results \<times> 's \<Rightarrow> error + ('q, 'v) results \<times> 's" where
  "version_body sample_price quarter revenue shares version rs =
     (case rs of (results, s) \<Rightarrow>
        (let share = dict_get shares version 0 in
         case (if share > 0 then
                 (case sample_price quarter version s of (price, s') \<Rightarrow>
                    (case py_div (revenue * share) price of
                       Inl e \<Rightarrow> Inl e
                     | Inr chips \<Rightarrow> Inr (chips, s')))
               else Inr (0, s)) of
           Inl e \<Rightarrow> Inl e
         | Inr (chips, s') \<Rightarrow>
             (case append_sample results quarter version chips of
                Inl e \<Rightarrow> Inl e
              | Inr results' \<Rightarrow> Inr (results', s'))))"

fun version_loop ::
  "('q \<Rightarrow> 'v \<Rightarrow> 's \<Rightarrow> real \<times> 's) \<Rightarrow> 'q \<Rightarrow> real \<Rightarrow> ('v, real) dict \<Rightarrow> 'v list \<Rightarrow>
   ('q, 'v) results \<times> 's \<Rightarrow> error + ('q, 'v) results \<times> 's" where
  "version_loop sample_price quarter revenue shares [] rs = Inr rs"
| "version_loop sample_price quarter revenue shares (version # versions) rs =
     (case version_body sample_price quarter revenue shares version rs of
        Inl e \<Rightarrow> Inl e
      | Inr rs' \<Rightarrow> version_loop sample_price quarter revenue shares versions rs')"

text \<open>
  The body of \<open>for quarter in quarters\<close>: one revenue draw, then one share draw, then the
  loop over the versions.
\<close>

definition quarter_body ::
  "'v list \<Rightarrow> ('q \<Rightarrow> 's \<Rightarrow> real \<times> 's) \<Rightarrow> ('q \<Rightarrow> 's \<Rightarrow> ('v, real) dict \<times> 's) \<Rightarrow>
   ('q \<Rightarrow> 'v \<Rightarrow> 's \<Rightarrow> real \<times> 's) \<Rightarrow> 'q \<Rightarrow>
   ('q, 'v) results \<times> 's \<Rightarrow> error + ('q, 'v) results \<times> 's" where
  "quarter_body versions sample_revenue sample_shares sample_price quarter rs =
     (case rs of (results, s) \<Rightarrow>
        (case sample_revenue quarter s of (revenue, s1) \<Rightarrow>
           (case sample_shares quarter s1 of (shares, s2) \<Rightarrow>
              version_loop sample_price quarter revenue shares versions (results, s2))))"

fun quarter_loop ::
  "'v list \<Rightarrow> ('q \<Rightarrow> 's \<Rightarrow> real \<times> 's) \<Rightarrow> ('q \<Rightarrow> 's \<Rightarrow> ('v, real) dict \<times> 's) \<Rightarrow>
   ('q \<Rightarrow> 'v \<Rightarrow> 's \<Rightarrow> real \<times> 's) \<Rightarrow> 'q list \<Rightarrow>
   ('q, 'v) results \<times> 's \<Rightarrow> error + ('q, 'v) results \<times> 's" where
  "quarter_loop versions sample_revenue sample_shares sample_price [] rs = Inr rs"
| "quarter_loop versions sample_revenue sample_shares sample_price (quarter # quarters) rs =
     (case quarter_body versions sample_revenue sample_shares sample_price quarter rs of
        Inl e \<Rightarrow> Inl e
      | Inr rs' \<Rightarrow> quarter_loop versions sample_revenue sample_shares sample_price quarters rs')"

text \<open>\<open>for _ in range(n_samples)\<close>, run as many times as the range has elements.\<close>

fun trial_loop ::
  "'q list \<Rightarrow> 'v list \<Rightarrow> ('q \<Rightarrow> 's \<Rightarrow> real \<times> 's) \<Rightarrow> ('q \<Rightarrow> 's \<Rightarrow> ('v, real) dict \<times> 's) \<Rightarrow>
   ('q \<Rightarrow> 'v \<Rightarrow> 's \<Rightarrow> real \<times> 's) \<Rightarrow> nat \<Rightarrow>
   ('q, 'v) results \<times> 's \<Rightarrow> error + ('q, 'v) results \<times> 's" where
  "trial_loop quarters versions sample_revenue sample_shares sample_price 0 rs = Inr rs"
| "trial_loop quarters versions sample_revenue sample_shares sample_price (Suc n) rs =
     (case quarter_loop versions sample_revenue sample_shares sample_price quarters rs of
        Inl e \<Rightarrow> Inl e
      | Inr rs' \<Rightarrow> trial_loop quarters versions sample_revenue sample_shares sample_price n rs')"

text \<open>
  \<open>estimate_chip_sales\<close> itself. \<open>range(n_samples)\<close> has \<open>nat n_samples\<close> elements (none for
  a negative count). The last argument is the state the callbacks start from; the function
  returns the table with the state they end in.
\<close>

definition estimate_chip_sales ::
  "'q list \<Rightarrow> 'v list \<Rightarrow> ('q \<Rightarrow> 's \<Rightarrow> real \<times> 's) \<Rightarrow> ('q \<Rightarrow> 's \<Rightarrow> ('v, real) dict \<times> 's) \<Rightarrow>
   ('q \<Rightarrow> 'v \<Rightarrow> 's \<Rightarrow> real \<times> 's) \<Rightarrow> int \<Rightarrow> 's \<Rightarrow> error + ('q, 'v) results \<times> 's" where
  "estimate_chip_sales quarters versions sample_revenue sample_shares sample_price n_samples s =
     trial_loop quarters versions sample_revenue sample_shares sample_price (nat n_samples)
       (init_results quarters versions, s)"

text \<open>
  \<open>results[quarter][version]\<close> read without raising: \<open>None\<close> when the quarter or the
  version is not a key.
\<close>

definition cell :: "('q, 'v) results \<Rightarrow> 'q \<Rightarrow> 'v \<Rightarrow> real list option" where
  "cell results quarter version =
     (case map_of results quarter of None \<Rightarrow> None | Some row \<Rightarrow> map_of row version)"

text \<open>
  How a cell changes over a stretch of the run: \<open>grown old new k z\<close> says that \<open>new\<close> is
  \<open>old\<close> with \<open>k\<close> values appended (and absent if \<open>old\<close> is), all of them 0 when \<open>z\<close> holds.
\<close>

definition grown :: "real list option \<Rightarrow> real list option \<Rightarrow> nat \<Rightarrow> bool \<Rightarrow> bool" where
  "grown old new k z =
     (\<exists>ext. new = map_option (\<lambda>c. c @ ext) old \<and> length ext = k \<and> (z \<longrightarrow> set ext \<subseteq> {0}))"

subsection \<open>Callbacks for the examples\<close>

text \<open>
  Deterministic callbacks, as a test would pass them: a fixed revenue, a fixed share map and a
  fixed price, none of which touches the state; and a price callback that counts its calls
  in the state.
\<close>

definition fixed_revenue :: "real \<Rightarrow> 'q \<Rightarrow> 's \<Rightarrow> real \<times> 's" where
  "fixed_revenue revenue quarter s = (revenue, s)"

definition fixed_shares :: "('v, real) dict \<Rightarrow> 'q \<Rightarrow> 's \<Rightarrow> ('v, real) dict \<times> 's" where
  "fixed_shares shares quarter s = (shares, s)"

definition fixed_price :: "real \<Rightarrow> 'q \<Rightarrow> 'v \<Rightarrow> 's \<Rightarrow> real \<times> 's" where
  "fixed_price price quarter version s = (price, s)"

definition counting_price :: "real \<Rightarrow> 'q \<Rightarrow> 'v \<Rightarrow> nat \<Rightarrow> real \<times> nat" where
  "counting_price price quarter version calls = (price, Suc calls)"

section \<open>The share normalizer: \<open>normalize_shares\<close>\<close>

text \<open>
  \<open>total = sum(raw_shares.values())\<close>, then the comprehension
  \<open>{k: v / total for k, v in raw_shares.items()}\<close>, which divides item by item and stops at
  the first division that raises.
\<close>

fun normalize_items ::
  "real \<Rightarrow> ('k \<times> real) list \<Rightarrow> ('k, real) dict \<Rightarrow> error + ('k, real) dict" where
  "normalize_items total_sum [] acc = Inr acc"
| "normalize_items total_sum ((k, v) # items) acc =
     (case py_div v total_sum of
        Inl e \<Rightarrow> Inl e
      | Inr share \<Rightarrow> normalize_items total_sum items (dict_set acc k share))"

definition normalize_shares :: "('k, real) dict \<Rightarrow> error + ('k, real) dict" where
  "normalize_shares raw_shares =
     (let total_sum = sum_list (map snd raw_shares) in normalize_items total_sum raw_shares [])"

section \<open>The compute-equivalence converter: \<open>compute_h100_equivalents\<close>\<close>

text \<open>
  A count is a number or a numpy array of samples (\<open>{version: count}\<close> or
  \<open>{version: array of samples}\<close>); \<open>counts * factor\<close> multiplies the number, or every
  element of the array.
\<close>

datatype counts = Count real | Samples "real list"

fun scale_counts :: "counts \<Rightarrow> real \<Rightarrow> counts" where
  "scale_counts (Count c) factor = Count (c * factor)"
| "scale_counts (Samples xs) factor = Samples (map (\<lambda>x. x * factor) xs)"

text \<open>
  The comprehension
  \<open>{version: counts * (chip_specs[version]['tops'] / h100_tops) for version, counts in chip_counts.items()}\<close>:
  for each item, the spec of the version is looked up, then its \<open>'tops'\<close>, then the
  division is done, then the product.
\<close>

type_synonym 'v chip_specs = "('v, (string, real) dict) dict"

fun h100_items ::
  "'v chip_specs \<Rightarrow> real \<Rightarrow> ('v \<times> counts) list \<Rightarrow> ('v, counts) dict \<Rightarrow>
   error + ('v, counts) dict" where
  "h100_items chip_specs h100_tops [] acc = Inr acc"
| "h100_items chip_specs h100_tops ((version, counts) # items) acc =
     (case dict_lookup chip_specs version of
        Inl e \<Rightarrow> Inl e
      | Inr spec \<Rightarrow>
          (case dict_lookup spec ''tops'' of
             Inl e \<Rightarrow> Inl e
           | Inr tops \<Rightarrow>
               (case py_div tops h100_tops of
                  Inl e \<Rightarrow> Inl e
                | Inr ratio \<Rightarrow>
                    h100_items chip_specs h100_tops items
                      (dict_set acc version (scale_counts counts ratio)))))"

definition compute_h100_equivalents ::
  "('v, counts) dict \<Rightarrow> 'v chip_specs \<Rightarrow> real \<Rightarrow> error + ('v, counts) dict" where
  "compute_h100_equivalents chip_counts chip_specs h100_tops =
     h100_items chip_specs h100_tops chip_counts []"

definition default_h100_tops :: real where
  "default_h100_tops = 1979"

text \<open>Scaling every count of a mapping by the constant \<open>k\<close>.\<close>

definition scale_all :: "real \<Rightarrow> ('v, counts) dict \<Rightarrow> ('v, counts) dict" where
  "scale_all k d = map (\<lambda>(version, counts). (version, scale_counts counts k)) d"

section \<open>The percentile aggregator: \<open>get_percentiles\<close>\<close>

text \<open>
  Modelled from the spec: \<open>np.percentile\<close> is numpy's function and has no source under
  \<open>src/\<close>. The spec gives its scheme: linear interpolation between order statistics, for
  percentile \<open>p\<close> the index \<open>p/100 * (n-1)\<close>, interpolated between the floor and ceil
  neighbours of the sorted samples. The spec takes the samples non-empty and \<open>p\<close> in
  \<open>[0, 100]\<close>; outside of that the model returns an error (numpy raises \<open>ValueError\<close> for
  such a \<open>p\<close>, and has no number to give for an empty array).
\<close>

definition np_percentile :: "real list \<Rightarrow> real \<Rightarrow> error + real" where
  "np_percentile samples p =
     (if p < 0 \<or> 100 < p then Inl ValueError
      else if samples = [] then Inl IndexError
      else
        (let n = length samples;
             ordered = sort samples;
             h = p / 100 * real (n - 1);
             lower = ordered ! nat \<lfloor>h\<rfloor>;
             upper = ordered ! nat \<lceil>h\<rceil>
         in Inr (lower + (h - of_int \<lfloor>h\<rfloor>) * (upper - lower))))"

text \<open>The comprehension \<open>{p: np.percentile(samples, p) for p in percentiles}\<close>.\<close>

fun percentile_items ::
  "real list \<Rightarrow> real list \<Rightarrow> (real, real) dict \<Rightarrow> error + (real, real) dict" where
  "percentile_items samples [] acc = Inr acc"
| "percentile_items samples (p # percentiles) acc =
     (case np_percentile samples p of
        Inl e \<Rightarrow> Inl e
      | Inr x \<Rightarrow> percentile_items samples percentiles (dict_set acc p x))"

definition get_percentiles :: "real list \<Rightarrow> real list \<Rightarrow> error + (real, real) dict" where
  "get_percentiles samples percentiles = percentile_items samples percentiles []"

definition default_percentiles :: "real list" where
  "default_percentiles = [5, 50, 95]"

section \<open>The summary table: \<open>summarize_quarterly_by_chip\<close>\<close>

text \<open>
  \<open>format_thousands(n)\<close> is \<open>f"{round(n / 1000)}k"\<close>. Python's \<open>round\<close> with one argument
  gives the nearest integer, and the even one of the two when the number lies halfway;
  the integer is then printed in decimal.
\<close>

definition py_round :: "real \<Rightarrow> int" where
  "py_round x =
     (let f = \<lfloor>x\<rfloor>; d = x - of_int f
      in if d < 1 / 2 then f else if 1 / 2 < d then f + 1 else if even f then f else f + 1)"

fun str_nat :: "nat \<Rightarrow> string" where
  "str_nat n =
     (if n < 10 then [''0123456789'' ! n]
      else str_nat (n div 10) @ [''0123456789'' ! (n mod 10)])"

declare str_nat.simps [simp del]

definition str_int :: "int \<Rightarrow> string" where
  "str_int i = (if i < 0 then ''-'' @ str_nat (nat (- i)) else str_nat (nat i))"

definition format_thousands :: "real \<Rightarrow> string" where
  "format_thousands n = str_int (py_round (n / 1000)) @ ''k''"

text \<open>
  \<open>total += arr\<close> on numpy arrays, \<open>total\<close> of shape \<open>(n,)\<close>: an array of the same length is
  added element by element, an array of length 1 is broadcast (its element is added to
  every element), any other length raises \<open>ValueError\<close>.
\<close>

definition np_iadd :: "real list \<Rightarrow> real list \<Rightarrow> error + real list" where
  "np_iadd total_arr arr =
     (if length arr = length total_arr then Inr (map2 (+) total_arr arr)
      else if length arr = 1 then Inr (map (\<lambda>t. t + hd arr) total_arr)
      else Inl ValueError)"

text \<open>
  The three assignments \<open>p5 = format_fn(np.percentile(arr, 5))\<close>, \<open>p50 = ...\<close>, \<open>p95 = ...\<close>
  and the cell text \<open>f"{p50} ({p5}-{p95})"\<close>.
\<close>

definition percentile_text :: "(real \<Rightarrow> string) \<Rightarrow> real list \<Rightarrow> error + string" where
  "percentile_text format_fn arr =
     (case np_percentile arr 5 of
        Inl e \<Rightarrow> Inl e
      | Inr v5 \<Rightarrow>
          (case np_percentile arr 50 of
             Inl e \<Rightarrow> Inl e
           | Inr v50 \<Rightarrow>
               (case np_percentile arr 95 of
                  Inl e \<Rightarrow> Inl e
                | Inr v95 \<Rightarrow>
                    (let p5 = format_fn v5; p50 = format_fn v50; p95 = format_fn v95
                     in Inr (p50 @ '' ('' @ p5 @ ''-'' @ p95 @ '')'')))))"

text \<open>
  The body of \<open>for chip_type in chip_types\<close>, on the row and the running total of the
  quarter: the samples of the cell are added to the total, and the row gets the percentile
  text of the cell, or \<open>"-"\<close> when the samples do not sum to more than 0.
\<close>

type_synonym summary_row = "(string, string) dict"

fun chip_type_loop ::
  "(string, string) results \<Rightarrow> (real \<Rightarrow> string) \<Rightarrow> string \<Rightarrow> string list \<Rightarrow>
   summary_row \<times> real list \<Rightarrow> error + summary_row \<times> real list" where
  "chip_type_loop results format_fn quarter [] rt = Inr rt"
| "chip_type_loop results format_fn quarter (chip_type # chip_types) rt =
     (case rt of (row, total_arr) \<Rightarrow>
        (case dict_lookup results quarter of
           Inl e \<Rightarrow> Inl e
         | Inr by_chip \<Rightarrow>
             (case dict_lookup by_chip chip_type of
                Inl e \<Rightarrow> Inl e
              | Inr arr \<Rightarrow>
                  (case np_iadd total_arr arr of
                     Inl e \<Rightarrow> Inl e
                   | Inr total_arr' \<Rightarrow>
                       (if sum_list arr > 0 then
                          (case percentile_text format_fn arr of
                             Inl e \<Rightarrow> Inl e
                           | Inr cell_text \<Rightarrow>
                               chip_type_loop results format_fn quarter chip_types
                                 (dict_set row chip_type cell_text, total_arr'))
                        else
                          chip_type_loop results format_fn quarter chip_types
                            (dict_set row chip_type ''-'', total_arr'))))))"

text \<open>
  The body of \<open>for quarter in quarters\<close>: the row starts as \<open>{'Quarter': quarter}\<close> and the
  total as \<open>np.zeros(n_samples)\<close>; after the chip types the percentile text of the total
  goes into the column \<open>'Total'\<close>.
\<close>

definition summary_row ::
  "(string, string) results \<Rightarrow> (real \<Rightarrow> string) \<Rightarrow> nat \<Rightarrow> string list \<Rightarrow> string \<Rightarrow>
   error + summary_row" where
  "summary_row results format_fn n_samples chip_types quarter =
     (case chip_type_loop results format_fn quarter chip_types
             ([(''Quarter'', quarter)], replicate n_samples 0) of
        Inl e \<Rightarrow> Inl e
      | Inr (row, total_arr) \<Rightarrow>
          (case percentile_text format_fn total_arr of
             Inl e \<Rightarrow> Inl e
           | Inr total_text \<Rightarrow> Inr (dict_set row ''Total'' total_text)))"

fun summary_rows ::
  "(string, string) results \<Rightarrow> (real \<Rightarrow> string) \<Rightarrow> nat \<Rightarrow> string list \<Rightarrow> string list \<Rightarrow>
   summary_row list \<Rightarrow> error + summary_row list" where
  "summary_rows results format_fn n_samples chip_types [] rows = Inr rows"
| "summary_rows results format_fn n_samples chip_types (quarter # quarters) rows =
     (case summary_row results format_fn n_samples chip_types quarter of
        Inl e \<Rightarrow> Inl e
      | Inr row \<Rightarrow>
          summary_rows results format_fn n_samples chip_types quarters (rows @ [row]))"

text \<open>
  The returned \<open>pd.DataFrame(rows)[cols]\<close> is kept as its column names and its records.
  \<open>quarters[0]\<close> raises \<open>IndexError\<close> on an empty table, \<open>chip_types[0]\<close> on a first quarter
  without chip types; \<open>results[quarters[0]]\<close> is the value of the first item.
\<close>

record data_frame =
  columns :: "string list"
  records :: "summary_row list"

definition summarize_quarterly_by_chip ::
  "(string, string) results \<Rightarrow> (real \<Rightarrow> string) \<Rightarrow> error + data_frame" where
  "summarize_quarterly_by_chip results format_fn =
     (case results of
        [] \<Rightarrow> Inl IndexError
      | (quarter0, by_chip0) # _ \<Rightarrow>
          (case by_chip0 of
             [] \<Rightarrow> Inl IndexError
           | (chip_type0, cell0) # _ \<Rightarrow>
               (let quarters = map fst results;
                    chip_types = map fst by_chip0;
                    n_samples = length cell0
                in case summary_rows results format_fn n_samples chip_types quarters [] of
                     Inl e \<Rightarrow> Inl e
                   | Inr rows \<Rightarrow>
                       Inr \<lparr>columns = ''Quarter'' # chip_types @ [''Total''],
                            records = rows\<rparr>)))"

text \<open>
  The elementwise sum of sample arrays of length \<open>n\<close>: position \<open>j\<close> holds the sum of the
  values that the arrays have at position \<open>j\<close>.
\<close>

definition elementwise_sum :: "nat \<Rightarrow> real list list \<Rightarrow> real list" where
  "elementwise_sum n arrs = map (\<lambda>j. sum_list (map (\<lambda>arr. arr ! j) arrs)) [0..<n]"

section \<open>Properties of the engine\<close>

subsection \<open>Cells of the table\<close>

lemma map_of_fold_dict_set:
  "map_of (fold (\<lambda>k d. dict_set d k (f k)) ks d0) k =
     (if k \<in> set ks then Some (f k) else map_of d0 k)"
  by (induction ks arbitrary: d0) (auto simp: dict_set_def update_conv')

lemma distinct_fold_dict_set:
  "distinct (map fst d0) \<Longrightarrow> distinct (map fst (fold (\<lambda>k d. dict_set d k (f k)) ks d0))"
  by (induction ks arbitrary: d0) (auto simp: dict_set_def distinct_update)

lemma cell_init_results:
  "cell (init_results quarters versions) q v =
     (if q \<in> set quarters \<and> v \<in> set versions then Some [] else None)"
  by (simp add: cell_def init_results_def init_row_def map_of_fold_dict_set)

lemma append_sample_Inr:
  assumes "append_sample results q v x = Inr results'"
  shows "cell results q v \<noteq> None \<and>
     (\<forall>q' v'. cell results' q' v' =
        (if q' = q \<and> v' = v then map_option (\<lambda>c. c @ [x]) (cell results q v)
         else cell results q' v'))"
proof -
  from assms obtain row c where row: "map_of results q = Some row"
    and c: "map_of row v = Some c"
    and r': "results' = AList.update q (AList.update v (c @ [x]) row) results"
    by (auto simp: append_sample_def dict_lookup_def dict_set_def
        split: option.splits sum.splits)
  have "cell results' q' v' =
        (if q' = q \<and> v' = v then map_option (\<lambda>c. c @ [x]) (cell results q v)
         else cell results q' v')" for q' v'
    by (simp add: cell_def r' update_conv' row c)
  moreover have "cell results q v \<noteq> None"
    by (simp add: cell_def row c)
  ultimately show ?thesis by blast
qed

lemma append_sample_Inl:
  "append_sample results q v x = Inl e \<Longrightarrow> e = KeyError \<and> cell results q v = None"
  by (auto simp: append_sample_def dict_lookup_def cell_def split: option.splits sum.splits)

lemma version_body_Inr:
  assumes "version_body sample_price q revenue shares v (results, s) = Inr (results', s')"
  shows "\<exists>chips. cell results q v \<noteq> None \<and>
     (\<forall>q' v'. cell results' q' v' =
        (if q' = q \<and> v' = v then map_option (\<lambda>c. c @ [chips]) (cell results q v)
         else cell results q' v')) \<and>
     (\<not> dict_get shares v 0 > 0 \<longrightarrow> chips = 0 \<and> s' = s)"
  using assms
  by (auto simp: version_body_def Let_def split: sum.splits prod.splits if_splits
      dest!: append_sample_Inr)

lemma version_body_Inl:
  "version_body sample_price q revenue shares v (results, s) = Inl e \<Longrightarrow>
     (e = ZeroDivisionError \<and> dict_get shares v 0 > 0 \<and>
        fst (sample_price q v s) = 0) \<or>
     (e = KeyError \<and> cell results q v = None)"
  by (auto simp: version_body_def Let_def py_div_def split: sum.splits prod.splits if_splits
      dest!: append_sample_Inl)


lemma grown_refl: "grown c c 0 z"
  by (simp add: grown_def option.map_ident)

lemma grown_trans:
  assumes "grown a b k z" and "grown b c l z"
  shows "grown a c (k + l) z"
proof -
  from assms obtain e1 e2 where
    b: "b = map_option (\<lambda>c. c @ e1) a" and k: "length e1 = k" and z1: "z \<longrightarrow> set e1 \<subseteq> {0}" and
    c: "c = map_option (\<lambda>c. c @ e2) b" and l: "length e2 = l" and z2: "z \<longrightarrow> set e2 \<subseteq> {0}"
    unfolding grown_def by blast
  have "c = map_option (\<lambda>c. c @ (e1 @ e2)) a"
    by (simp add: b c option.map_comp comp_def)
  moreover have "length (e1 @ e2) = k + l" using k l by simp
  moreover have "z \<longrightarrow> set (e1 @ e2) \<subseteq> {0}" using z1 z2 by auto
  ultimately show ?thesis unfolding grown_def by blast
qed

lemma grown_weaken: "grown a b k z \<Longrightarrow> (z' \<Longrightarrow> z) \<Longrightarrow> grown a b k z'"
  unfolding grown_def by blast

lemma grown_None_iff: "grown a b k z \<Longrightarrow> b = None \<longleftrightarrow> a = None"
  unfolding grown_def by auto

lemma version_body_grown:
  assumes "version_body sample_price q revenue shares v (results, s) = Inr (results', s')"
  shows "grown (cell results q' v') (cell results' q' v')
           (if q' = q \<and> v' = v then 1 else 0) (\<not> dict_get shares v' 0 > 0)"
proof -
  from version_body_Inr [OF assms] obtain chips where
    upd: "\<And>q' v'. cell results' q' v' =
        (if q' = q \<and> v' = v then map_option (\<lambda>c. c @ [chips]) (cell results q v)
         else cell results q' v')"
    and z: "\<not> dict_get shares v 0 > 0 \<longrightarrow> chips = 0 \<and> s' = s"
    by blast
  show ?thesis
  proof (cases "q' = q \<and> v' = v")
    case True
    then show ?thesis using upd [of q' v'] z
      unfolding grown_def by (intro exI [of _ "[chips]"]) auto
  next
    case False
    then have "cell results' q' v' = cell results q' v'" using upd [of q' v'] by auto
    moreover have "(if q' = q \<and> v' = v then 1 else 0) = (0::nat)" using False by auto
    ultimately show ?thesis by (simp only: grown_refl)
  qed
qed

lemma version_loop_grown:
  assumes "version_loop sample_price q revenue shares versions (results, s) = Inr (results', s')"
  shows "grown (cell results q' v') (cell results' q' v')
           (if q' = q then count_list versions v' else 0) (\<not> dict_get shares v' 0 > 0)"
  using assms
proof (induction versions arbitrary: results s)
  case Nil
  then show ?case by (simp add: grown_refl)
next
  case (Cons v versions)
  from Cons.prems obtain r1 s1 where
    body: "version_body sample_price q revenue shares v (results, s) = Inr (r1, s1)" and
    rest: "version_loop sample_price q revenue shares versions (r1, s1) = Inr (results', s')"
    by (auto split: sum.splits)
  have eq: "(if q' = q \<and> v' = v then 1 else 0) + (if q' = q then count_list versions v' else 0)
        = (if q' = q then count_list (v # versions) v' else 0)" by simp
  from grown_trans [OF version_body_grown [OF body] Cons.IH [OF rest]]
  show ?case unfolding eq .
qed

lemma quarter_body_grown:
  assumes "quarter_body versions sample_revenue sample_shares sample_price q (results, s)
             = Inr (results', s')"
  shows "grown (cell results q' v') (cell results' q' v')
           (if q' = q then count_list versions v' else 0)
           (\<forall>q s. \<not> dict_get (fst (sample_shares q s)) v' 0 > 0)"
proof -
  obtain revenue s1 where rev: "sample_revenue q s = (revenue, s1)" by (cases "sample_revenue q s")
  obtain shares s2 where sh: "sample_shares q s1 = (shares, s2)" by (cases "sample_shares q s1")
  from assms have "version_loop sample_price q revenue shares versions (results, s2)
                     = Inr (results', s')"
    by (simp add: quarter_body_def rev sh)
  from version_loop_grown [OF this, of q' v'] show ?thesis
  proof (rule grown_weaken)
    assume "\<forall>q s. \<not> dict_get (fst (sample_shares q s)) v' 0 > 0"
    from this [rule_format, of q s1] show "\<not> dict_get shares v' 0 > 0" by (simp add: sh)
  qed
qed

lemma quarter_loop_grown:
  assumes "quarter_loop versions sample_revenue sample_shares sample_price quarters (results, s)
             = Inr (results', s')"
  shows "grown (cell results q' v') (cell results' q' v')
           (count_list quarters q' * count_list versions v')
           (\<forall>q s. \<not> dict_get (fst (sample_shares q s)) v' 0 > 0)"
  using assms
proof (induction quarters arbitrary: results s)
  case Nil
  then show ?case by (simp add: grown_refl)
next
  case (Cons q quarters)
  from Cons.prems obtain r1 s1 where
    body: "quarter_body versions sample_revenue sample_shares sample_price q (results, s)
             = Inr (r1, s1)" and
    rest: "quarter_loop versions sample_revenue sample_shares sample_price quarters (r1, s1)
             = Inr (results', s')"
    by (auto split: sum.splits)
  have eq: "(if q' = q then count_list versions v' else 0)
          + count_list quarters q' * count_list versions v'
        = count_list (q # quarters) q' * count_list versions v'" by simp
  from grown_trans [OF quarter_body_grown [OF body] Cons.IH [OF rest]]
  show ?case unfolding eq .
qed

lemma trial_loop_grown:
  assumes "trial_loop quarters versions sample_revenue sample_shares sample_price n (results, s)
             = Inr (results', s')"
  shows "grown (cell results q' v') (cell results' q' v')
           (n * (count_list quarters q' * count_list versions v'))
           (\<forall>q s. \<not> dict_get (fst (sample_shares q s)) v' 0 > 0)"
  using assms
proof (induction n arbitrary: results s)
  case 0
  then show ?case by (simp add: grown_refl)
next
  case (Suc n)
  from Suc.prems obtain r1 s1 where
    body: "quarter_loop versions sample_revenue sample_shares sample_price quarters (results, s)
             = Inr (r1, s1)" and
    rest: "trial_loop quarters versions sample_revenue sample_shares sample_price n (r1, s1)
             = Inr (results', s')"
    by (auto split: sum.splits)
  have eq: "count_list quarters q' * count_list versions v'
          + n * (count_list quarters q' * count_list versions v')
        = Suc n * (count_list quarters q' * count_list versions v')" by simp
  from grown_trans [OF quarter_loop_grown [OF body] Suc.IH [OF rest]]
  show ?case unfolding eq .
qed


lemma version_loop_Inl:
  assumes "version_loop sample_price q revenue shares versions (results, s) = Inl e"
  shows "(e = ZeroDivisionError \<and> (\<exists>q v s. fst (sample_price q v s) = 0)) \<or>
         (e = KeyError \<and> (\<exists>v\<in>set versions. cell results q v = None))"
  using assms
proof (induction versions arbitrary: results s)
  case Nil
  then show ?case by simp
next
  case (Cons v versions)
  show ?case
  proof (cases "version_body sample_price q revenue shares v (results, s)")
    case (Inl e')
    with Cons.prems have "e' = e" by simp
    with version_body_Inl [of sample_price q revenue shares v results s e] Inl
    show ?thesis by auto
  next
    case (Inr rs1)
    obtain r1 s1 where rs1: "rs1 = (r1, s1)" by (cases rs1)
    from Cons.prems Inr rs1
    have rest: "version_loop sample_price q revenue shares versions (r1, s1) = Inl e" by simp
    have keep: "cell r1 q v' = None \<longleftrightarrow> cell results q v' = None" for v'
      using version_body_grown [of sample_price q revenue shares v results s r1 s1 q v'] Inr rs1
      by (auto dest: grown_None_iff)
    from Cons.IH [OF rest] show ?thesis by (auto simp: keep)
  qed
qed

lemma quarter_body_Inl:
  assumes "quarter_body versions sample_revenue sample_shares sample_price q (results, s) = Inl e"
  shows "(e = ZeroDivisionError \<and> (\<exists>q v s. fst (sample_price q v s) = 0)) \<or>
         (e = KeyError \<and> (\<exists>v\<in>set versions. cell results q v = None))"
proof -
  obtain revenue s1 where rev: "sample_revenue q s = (revenue, s1)" by (cases "sample_revenue q s")
  obtain shares s2 where sh: "sample_shares q s1 = (shares, s2)" by (cases "sample_shares q s1")
  from assms have "version_loop sample_price q revenue shares versions (results, s2) = Inl e"
    by (simp add: quarter_body_def rev sh)
  from version_loop_Inl [OF this] show ?thesis .
qed

lemma quarter_loop_Inl:
  assumes "quarter_loop versions sample_revenue sample_shares sample_price quarters (results, s)
             = Inl e"
  shows "(e = ZeroDivisionError \<and> (\<exists>q v s. fst (sample_price q v s) = 0)) \<or>
         (e = KeyError \<and> (\<exists>q\<in>set quarters. \<exists>v\<in>set versions. cell results q v = None))"
  using assms
proof (induction quarters arbitrary: results s)
  case Nil
  then show ?case by simp
next
  case (Cons q quarters)
  show ?case
  proof (cases "quarter_body versions sample_revenue sample_shares sample_price q (results, s)")
    case (Inl e')
    with Cons.prems have "e' = e" by simp
    with quarter_body_Inl [of versions sample_revenue sample_shares sample_price q results s e] Inl
    show ?thesis by auto
  next
    case (Inr rs1)
    obtain r1 s1 where rs1: "rs1 = (r1, s1)" by (cases rs1)
    from Cons.prems Inr rs1
    have rest: "quarter_loop versions sample_revenue sample_shares sample_price quarters (r1, s1)
                  = Inl e" by simp
    have keep: "cell r1 q' v' = None \<longleftrightarrow> cell results q' v' = None" for q' v'
      using quarter_body_grown [of versions sample_revenue sample_shares sample_price q
          results s r1 s1 q' v'] Inr rs1
      by (auto dest: grown_None_iff)
    from Cons.IH [OF rest] show ?thesis by (auto simp: keep)
  qed
qed

lemma trial_loop_Inl:
  assumes "trial_loop quarters versions sample_revenue sample_shares sample_price n (results, s)
             = Inl e"
  shows "(e = ZeroDivisionError \<and> (\<exists>q v s. fst (sample_price q v s) = 0)) \<or>
         (e = KeyError \<and> (\<exists>q\<in>set quarters. \<exists>v\<in>set versions. cell results q v = None))"
  using assms
proof (induction n arbitrary: results s)
  case 0
  then show ?case by simp
next
  case (Suc n)
  show ?case
  proof (cases "quarter_loop versions sample_revenue sample_shares sample_price quarters
                  (results, s)")
    case (Inl e')
    with Suc.prems have "e' = e" by simp
    with quarter_loop_Inl [of versions sample_revenue sample_shares sample_price quarters
        results s e] Inl
    show ?thesis by auto
  next
    case (Inr rs1)
    obtain r1 s1 where rs1: "rs1 = (r1, s1)" by (cases rs1)
    from Suc.prems Inr rs1
    have rest: "trial_loop quarters versions sample_revenue sample_shares sample_price n (r1, s1)
                  = Inl e" by simp
    have keep: "cell r1 q' v' = None \<longleftrightarrow> cell results q' v' = None" for q' v'
      using quarter_loop_grown [of versions sample_revenue sample_shares sample_price quarters
          results s r1 s1 q' v'] Inr rs1
      by (auto dest: grown_None_iff)
    from Suc.IH [OF rest] show ?thesis by (auto simp: keep)
  qed
qed

subsection \<open>What \<open>estimate_chip_sales\<close> returns\<close>

lemma estimate_chip_sales_Inl:
  assumes "estimate_chip_sales quarters versions sample_revenue sample_shares sample_price
             n_samples s = Inl e"
  shows "e = ZeroDivisionError \<and> (\<exists>q v s. fst (sample_price q v s) = 0)"
  using trial_loop_Inl [OF assms [unfolded estimate_chip_sales_def]]
  by (auto simp: cell_init_results)

lemma estimate_chip_sales_Inr:
  assumes "estimate_chip_sales quarters versions sample_revenue sample_shares sample_price
             n_samples s = Inr (results, s')"
    and "q \<in> set quarters" and "v \<in> set versions"
  shows "\<exists>c. cell results q v = Some c \<and>
           length c = nat n_samples * (count_list quarters q * count_list versions v) \<and>
           ((\<forall>q s. \<not> dict_get (fst (sample_shares q s)) v 0 > 0) \<longrightarrow> set c \<subseteq> {0})"
  using trial_loop_grown [OF assms(1) [unfolded estimate_chip_sales_def], of q v] assms(2,3)
  by (auto simp: cell_init_results grown_def)

lemma cell_lookup:
  "cell results q v = Some c \<Longrightarrow>
     \<exists>row. dict_lookup results q = Inr row \<and> dict_lookup row v = Inr c"
  by (auto simp: cell_def dict_lookup_def split: option.splits)

lemma count_list_distinct: "distinct xs \<Longrightarrow> x \<in> set xs \<Longrightarrow> count_list xs x = 1"
  by (induction xs) auto

lemma all_zero_replicate: "set xs \<subseteq> {0::real} \<Longrightarrow> xs = replicate (length xs) 0"
  by (induction xs) auto

lemma version_body_no_price:
  assumes "\<not> dict_get shares version 0 > 0"
  shows "version_body sample_price quarter revenue shares version (results, s) =
           (case append_sample results quarter version 0 of
              Inl e \<Rightarrow> Inl e
            | Inr results' \<Rightarrow> Inr (results', s))"
  using assms by (simp add: version_body_def)

text \<open>
  Claim C1. With quarters \<open>["Q1"]\<close>, versions \<open>["A", "B"]\<close>, a revenue of 1000, the shares
  \<open>{"A": 0.6, "B": 0.4}\<close>, the prices 10 for A and 20 for B and one trial,
  \<open>estimate_chip_sales\<close> returns the table \<open>{"Q1": {"A": [60.0], "B": [20.0]}}\<close>.
\<close>

theorem estimate_chip_sales_scenario:
  "estimate_chip_sales [''Q1''] [''A'', ''B'']
     (\<lambda>quarter s. (1000, s))
     (\<lambda>quarter s. ([(''A'', 6 / 10), (''B'', 4 / 10)], s))
     (\<lambda>quarter version s. (if version = ''A'' then 10 else 20, s))
     1 s
   = Inr ([(''Q1'', [(''A'', [60]), (''B'', [20])])], s)"
  by (simp add: estimate_chip_sales_def init_results_def init_row_def dict_set_def
      quarter_body_def version_body_def dict_get_def append_sample_def dict_lookup_def
      py_div_def)

text \<open>
  Claim C2, as stated, fails when a quarter (or a version) is listed twice: the table has
  one cell for it, and every trial appends to that cell once per occurrence. With the
  quarters \<open>["Q1", "Q1"]\<close> and one trial the cell of A holds two samples.
\<close>

theorem estimate_chip_sales_repeated_quarter:
  "estimate_chip_sales [''Q1'', ''Q1''] [''A'']
     (fixed_revenue 1000) (fixed_shares [(''A'', 1)]) (fixed_price 10) 1 ()
   = Inr ([(''Q1'', [(''A'', [100, 100])])], ())
   \<and> length [100, 100 :: real] \<noteq> nat 1"
  by (simp add: estimate_chip_sales_def init_results_def init_row_def dict_set_def
      quarter_body_def version_body_def dict_get_def append_sample_def dict_lookup_def
      py_div_def fixed_revenue_def fixed_shares_def fixed_price_def)

text \<open>
  Claim C2, amended. For all lists of quarters and versions, all callbacks and every trial
  count \<open>N\<close>, \<open>estimate_chip_sales\<close> either stops with \<open>ZeroDivisionError\<close> (and then the price
  callback can return 0) or returns a table that has a cell for every declared
  (quarter, version) pair; the cell holds \<open>N\<close> samples for each occurrence of the quarter and
  of the version in their lists, so exactly \<open>N\<close> samples when neither list repeats an
  element (\<open>nat N\<close> is \<open>N\<close> for a count, and 0 for a negative number, where \<open>range\<close> is empty).
\<close>

theorem estimate_chip_sales_fully_populated:
  "case estimate_chip_sales quarters versions sample_revenue sample_shares sample_price
          n_samples s of
     Inl e \<Rightarrow> e = ZeroDivisionError \<and> (\<exists>q v t. fst (sample_price q v t) = 0)
   | Inr (results, s') \<Rightarrow>
       \<forall>q\<in>set quarters. \<forall>v\<in>set versions. \<exists>row c.
         dict_lookup results q = Inr row \<and> dict_lookup row v = Inr c \<and>
         length c = nat n_samples * (count_list quarters q * count_list versions v) \<and>
         (distinct quarters \<and> distinct versions \<longrightarrow> length c = nat n_samples)"
proof (cases "estimate_chip_sales quarters versions sample_revenue sample_shares sample_price
          n_samples s")
  case (Inl e)
  from estimate_chip_sales_Inl [OF Inl] show ?thesis by (simp add: Inl)
next
  case (Inr rs)
  obtain results s' where rs: "rs = (results, s')" by (cases rs)
  have "\<exists>row c. dict_lookup results q = Inr row \<and> dict_lookup row v = Inr c \<and>
         length c = nat n_samples * (count_list quarters q * count_list versions v) \<and>
         (distinct quarters \<and> distinct versions \<longrightarrow> length c = nat n_samples)"
    if q: "q \<in> set quarters" and v: "v \<in> set versions" for q v
  proof -
    from estimate_chip_sales_Inr [OF Inr [unfolded rs] q v] obtain c where
      c: "cell results q v = Some c" and
      len: "length c = nat n_samples * (count_list quarters q * count_list versions v)"
      by blast
    from cell_lookup [OF c] obtain row where
      row: "dict_lookup results q = Inr row" "dict_lookup row v = Inr c" by blast
    have "length c = nat n_samples" if "distinct quarters \<and> distinct versions"
      using that len q v by (simp add: count_list_distinct)
    with row len show ?thesis by blast
  qed
  then show ?thesis by (simp add: Inr rs)
qed

theorem estimate_chip_sales_fully_populated_witness:
  "distinct [''Q1'', ''Q2''] \<and> distinct [''A'', ''B''] \<and>
   (\<exists>results. estimate_chip_sales [''Q1'', ''Q2''] [''A'', ''B'']
        (fixed_revenue 1000) (fixed_shares [(''A'', 6 / 10), (''B'', 4 / 10)]) (fixed_price 10)
        3 () = Inr (results, ()) \<and>
      (\<forall>q\<in>set [''Q1'', ''Q2'']. \<forall>v\<in>set [''A'', ''B'']. \<exists>row c.
         dict_lookup results q = Inr row \<and> dict_lookup row v = Inr c \<and> length c = 3))"
proof -
  let ?run = "estimate_chip_sales [''Q1'', ''Q2''] [''A'', ''B'']
        (fixed_revenue 1000) (fixed_shares [(''A'', 6 / 10), (''B'', 4 / 10)])
        (fixed_price 10 :: string \<Rightarrow> string \<Rightarrow> unit \<Rightarrow> real \<times> unit) 3 ()"
  have d: "distinct [''Q1'', ''Q2'']" "distinct [''A'', ''B'']" by simp_all
  note full = estimate_chip_sales_fully_populated [where quarters = "[''Q1'', ''Q2'']"
      and versions = "[''A'', ''B'']" and sample_revenue = "fixed_revenue 1000"
      and sample_shares = "fixed_shares [(''A'', 6 / 10), (''B'', 4 / 10)]"
      and sample_price = "fixed_price 10 :: string \<Rightarrow> string \<Rightarrow> unit \<Rightarrow> real \<times> unit"
      and n_samples = 3 and s = "()"]
  show ?thesis
  proof (cases ?run)
    case (Inl e)
    with full show ?thesis by (simp add: fixed_price_def)
  next
    case (Inr rs)
    obtain results s' where rs: "rs = (results, s')" by (cases rs)
    from full d have "\<forall>q\<in>set [''Q1'', ''Q2'']. \<forall>v\<in>set [''A'', ''B'']. \<exists>row c.
         dict_lookup results q = Inr row \<and> dict_lookup row v = Inr c \<and> length c = 3"
      unfolding Inr rs by simp
    with d show ?thesis unfolding Inr rs by simp
  qed
qed

text \<open>
  Claim C3, as stated, fails in its last part when a version is listed twice: with the
  versions \<open>["A", "A"]\<close>, an empty share map and one trial, the cell of A is \<open>[0, 0]\<close>, of
  length 2 and not 1. (The price callback counts its calls: it is never called.)
\<close>

theorem zero_share_repeated_version:
  "estimate_chip_sales [''Q1''] [''A'', ''A'']
     (fixed_revenue 1000) (fixed_shares []) (counting_price 10) 1 0
   = Inr ([(''Q1'', [(''A'', [0, 0])])], 0)
   \<and> [0, 0] \<noteq> replicate (nat 1) (0 :: real)"
  by (simp add: estimate_chip_sales_def init_results_def init_row_def dict_set_def
      quarter_body_def version_body_def dict_get_def append_sample_def dict_lookup_def
      fixed_revenue_def fixed_shares_def)

text \<open>
  Claim C3, amended. When the share of a version is exactly 0 in the drawn share map, or
  the version is absent from it, the loop body appends 0 to the cell and returns the state
  it was given, whatever the price callback is: the callback is not called. Consequently, if
  the share callback never gives a version another share than 0, the cell of that version
  in the returned table is the constant-zero sequence; its length is \<open>N\<close> for each occurrence
  of the quarter and of the version in their lists, so \<open>N\<close> when neither list repeats an
  element.
\<close>

theorem zero_share_short_circuit:
  "(map_of shares version = None \<or> map_of shares version = Some 0 \<longrightarrow>
      version_body sample_price quarter revenue shares version (results, s) =
        (case append_sample results quarter version 0 of
           Inl e \<Rightarrow> Inl e
         | Inr results' \<Rightarrow> Inr (results', s)))
   \<and>
   ((\<forall>q t. map_of (fst (sample_shares q t)) version = None \<or>
           map_of (fst (sample_shares q t)) version = Some 0) \<and>
    estimate_chip_sales quarters versions sample_revenue sample_shares sample_price
      n_samples start = Inr (table, final) \<and>
    quarter \<in> set quarters \<and> version \<in> set versions \<longrightarrow>
      cell table quarter version =
        Some (replicate (nat n_samples *
                (count_list quarters quarter * count_list versions version)) 0) \<and>
      (distinct quarters \<and> distinct versions \<longrightarrow>
         cell table quarter version = Some (replicate (nat n_samples) 0)))"
proof (intro conjI impI)
  assume "map_of shares version = None \<or> map_of shares version = Some 0"
  then have "\<not> dict_get shares version 0 > 0" by (auto simp: dict_get_def)
  then show "version_body sample_price quarter revenue shares version (results, s) =
        (case append_sample results quarter version 0 of
           Inl e \<Rightarrow> Inl e
         | Inr results' \<Rightarrow> Inr (results', s))"
    by (rule version_body_no_price)
next
  assume a: "(\<forall>q t. map_of (fst (sample_shares q t)) version = None \<or>
           map_of (fst (sample_shares q t)) version = Some 0) \<and>
    estimate_chip_sales quarters versions sample_revenue sample_shares sample_price
      n_samples start = Inr (table, final) \<and>
    quarter \<in> set quarters \<and> version \<in> set versions"
  have "\<not> dict_get (fst (sample_shares q t)) version 0 > 0" for q t
    using a [THEN conjunct1, rule_format, of q t] by (auto simp: dict_get_def)
  then have z: "\<forall>q t. \<not> dict_get (fst (sample_shares q t)) version 0 > 0" by blast
  from a estimate_chip_sales_Inr [of quarters versions sample_revenue sample_shares
      sample_price n_samples start table final quarter version] z
  obtain c where c: "cell table quarter version = Some c" and
    len: "length c = nat n_samples * (count_list quarters quarter * count_list versions version)"
    and zero: "set c \<subseteq> {0}" by blast
  from all_zero_replicate [OF zero] len
  show gen: "cell table quarter version =
        Some (replicate (nat n_samples *
                (count_list quarters quarter * count_list versions version)) 0)"
    by (simp add: c)
  assume "distinct quarters \<and> distinct versions"
  with a gen show "cell table quarter version = Some (replicate (nat n_samples) 0)"
    by (simp add: count_list_distinct)
qed

theorem zero_share_short_circuit_witness:
  "map_of [(''B'', 1 :: real)] ''A'' = None \<and>
   version_body (counting_price 10) ''Q1'' 1000 [(''B'', 1)] ''A''
     ([(''Q1'', [(''A'', []), (''B'', [])])], 0)
     = Inr ([(''Q1'', [(''A'', [0]), (''B'', [])])], 0) \<and>
   estimate_chip_sales [''Q1''] [''A'', ''B''] (fixed_revenue 1000) (fixed_shares [(''B'', 1)])
     (counting_price 10) 3 0
     = Inr ([(''Q1'', [(''A'', [0, 0, 0]), (''B'', [100, 100, 100])])], 3) \<and>
   cell [(''Q1'', [(''A'', [0, 0, 0]), (''B'', [100, 100, 100 :: real])])] ''Q1'' ''A''
     = Some (replicate (nat 3) 0)"
proof -
  have run: "estimate_chip_sales [''Q1''] [''A'', ''B''] (fixed_revenue 1000)
     (fixed_shares [(''B'', 1)]) (counting_price 10) 3 0
     = Inr ([(''Q1'', [(''A'', [0, 0, 0]), (''B'', [100, 100, 100])])], 3)"
    by (simp add: estimate_chip_sales_def init_results_def init_row_def dict_set_def
        quarter_body_def version_body_def dict_get_def append_sample_def dict_lookup_def
        py_div_def fixed_revenue_def fixed_shares_def counting_price_def numeral_3_eq_3)
  have app: "append_sample [(''Q1'', [(''A'', []), (''B'', [])])] ''Q1'' ''A'' 0
      = Inr [(''Q1'', [(''A'', [0]), (''B'', [])])]"
    by (simp add: append_sample_def dict_lookup_def dict_set_def)
  note inst = zero_share_short_circuit [where shares = "[(''B'', 1)]" and version = "''A''"
      and sample_price = "counting_price 10" and quarter = "''Q1''" and revenue = 1000
      and results = "[(''Q1'', [(''A'', []), (''B'', [])])]" and s = 0
      and sample_shares = "fixed_shares [(''B'', 1)]" and quarters = "[''Q1'']"
      and versions = "[''A'', ''B'']" and sample_revenue = "fixed_revenue 1000"
      and n_samples = 3 and start = 0
      and table = "[(''Q1'', [(''A'', [0, 0, 0]), (''B'', [100, 100, 100])])]" and final = 3]
  from inst have step: "version_body (counting_price 10) ''Q1'' 1000 [(''B'', 1)] ''A''
     ([(''Q1'', [(''A'', []), (''B'', [])])], 0)
     = Inr ([(''Q1'', [(''A'', [0]), (''B'', [])])], 0)"
    by (simp add: app)
  from inst run have "cell [(''Q1'', [(''A'', [0, 0, 0]), (''B'', [100, 100, 100 :: real])])]
       ''Q1'' ''A'' = Some (replicate (nat 3) 0)"
    by (simp add: fixed_shares_def)
  with step run show ?thesis by simp
qed

text \<open>
  Claim C10. A strictly negative share is treated as a zero share: the loop body appends 0
  to the cell and returns the state it was given, whatever the price callback is (it is
  not called), the test being \<open>share > 0\<close>; the outcome is that of the same step with the
  share of the version set to 0, for any price callback and any revenue.
\<close>

theorem negative_share_short_circuit:
  "dict_get shares version 0 < 0 \<Longrightarrow>
     version_body sample_price quarter revenue shares version (results, s) =
       (case append_sample results quarter version 0 of
          Inl e \<Rightarrow> Inl e
        | Inr results' \<Rightarrow> Inr (results', s))
     \<and> version_body sample_price quarter revenue shares version (results, s) =
       version_body sample_price' quarter revenue' (dict_set shares version 0) version
         (results, s)"
proof -
  assume neg: "dict_get shares version 0 < 0"
  have "dict_get (dict_set shares version 0) version 0 = (0 :: real)"
    by (simp add: dict_get_def dict_set_def update_conv')
  then have "\<not> dict_get (dict_set shares version 0) version 0 > 0" by simp
  from version_body_no_price [OF this]
  have set0: "version_body sample_price' quarter revenue' (dict_set shares version 0) version
      (results, s) =
       (case append_sample results quarter version 0 of
          Inl e \<Rightarrow> Inl e
        | Inr results' \<Rightarrow> Inr (results', s))" .
  from neg have "\<not> dict_get shares version 0 > 0" by simp
  from version_body_no_price [OF this]
  have "version_body sample_price quarter revenue shares version (results, s) =
       (case append_sample results quarter version 0 of
          Inl e \<Rightarrow> Inl e
        | Inr results' \<Rightarrow> Inr (results', s))" .
  with set0 show ?thesis by (simp only: simp_thms)
qed

theorem negative_share_short_circuit_witness:
  "dict_get [(''A'', - 1 / 2), (''B'', 3 / 2)] ''A'' 0 < (0 :: real) \<and>
   version_body (counting_price 10) ''Q1'' 1000 [(''A'', - 1 / 2), (''B'', 3 / 2)] ''A''
     ([(''Q1'', [(''A'', []), (''B'', [])])], 0)
     = Inr ([(''Q1'', [(''A'', [0]), (''B'', [])])], 0)"
proof -
  have neg: "dict_get [(''A'', - 1 / 2), (''B'', 3 / 2)] ''A'' 0 < (0 :: real)"
    by (simp add: dict_get_def)
  have app: "append_sample [(''Q1'', [(''A'', []), (''B'', [])])] ''Q1'' ''A'' 0
      = Inr [(''Q1'', [(''A'', [0]), (''B'', [])])]"
    by (simp add: append_sample_def dict_lookup_def dict_set_def)
  from negative_share_short_circuit [OF neg, where sample_price = "counting_price 10"
      and quarter = "''Q1''" and revenue = 1000
      and results = "[(''Q1'', [(''A'', []), (''B'', [])])]" and s = 0] neg
  show ?thesis by (simp add: app)
qed

section \<open>Properties of \<open>normalize_shares\<close>\<close>

lemma update_new_key: "k \<notin> fst ` set d \<Longrightarrow> AList.update k v d = d @ [(k, v)]"
  by (induction d) auto

lemma normalize_items_nonzero:
  assumes "total_sum \<noteq> 0" and "distinct (map fst acc @ map fst items)"
  shows "normalize_items total_sum items acc
           = Inr (acc @ map (\<lambda>(k, v). (k, v / total_sum)) items)"
  using assms(2)
proof (induction items arbitrary: acc)
  case Nil
  then show ?case by simp
next
  case (Cons item items)
  obtain k v where item: "item = (k, v)" by (cases item)
  from Cons.prems have new: "k \<notin> fst ` set acc" by (auto simp: item)
  from Cons.prems have "distinct (map fst (acc @ [(k, v / total_sum)]) @ map fst items)"
    by (auto simp: item)
  from Cons.IH [OF this] show ?case
    by (simp add: item py_div_def assms(1) dict_set_def update_new_key [OF new])
qed

lemma normalize_items_zero:
  "items \<noteq> [] \<Longrightarrow> normalize_items 0 items acc = Inl ZeroDivisionError"
  by (cases items) (auto simp: py_div_def)

lemma sum_list_divided:
  "sum_list (map snd (map (\<lambda>(k, v). (k, v / c)) xs)) = sum_list (map snd xs) / (c :: real)"
  by (induction xs) (auto simp: add_divide_distrib)

lemma map_of_divided:
  "map_of (map (\<lambda>(k, v). (k, v / c)) xs) k = map_option (\<lambda>v. v / (c :: real)) (map_of xs k)"
  by (induction xs) auto

lemma keys_divided: "map fst (map (\<lambda>(k, v). (k, v / (c :: real))) xs) = map fst xs"
  by (induction xs) auto

lemma normalize_shares_nonzero:
  assumes "py_dict raw_shares" and "sum_list (map snd raw_shares) \<noteq> 0"
  shows "normalize_shares raw_shares
           = Inr (map (\<lambda>(k, v). (k, v / sum_list (map snd raw_shares))) raw_shares)"
  using normalize_items_nonzero [OF assms(2), of "[]" raw_shares] assms(1)
  by (simp add: normalize_shares_def py_dict_def)

text \<open>
  Claim C4. For a mapping of non-negative raw weights with at least one weight strictly
  positive, \<open>normalize_shares\<close> returns a mapping with the same keys, in the same order,
  whose value at each key is the raw weight divided by the sum of all the raw weights; the
  output values sum to 1. And \<open>normalize_shares({"A": 3, "B": 1})\<close> is
  \<open>{"A": 0.75, "B": 0.25}\<close>.
\<close>

theorem normalize_shares_sum_one:
  assumes "py_dict raw_shares"
    and "\<forall>(k, v)\<in>set raw_shares. 0 \<le> v"
    and "\<exists>(k, v)\<in>set raw_shares. 0 < v"
  shows "(\<exists>out. normalize_shares raw_shares = Inr out \<and>
            map fst out = map fst raw_shares \<and>
            (\<forall>k v. map_of raw_shares k = Some v \<longrightarrow>
               map_of out k = Some (v / sum_list (map snd raw_shares))) \<and>
            sum_list (map snd out) = 1) \<and>
         normalize_shares [(''A'', 3), (''B'', 1)] = Inr [(''A'', 75 / 100), (''B'', 25 / 100)]"
proof -
  let ?total = "sum_list (map snd raw_shares)"
  let ?out = "map (\<lambda>(k, v). (k, v / ?total)) raw_shares"
  have nonneg: "0 \<le> x" if "x \<in> set (map snd raw_shares)" for x
    using that assms(2) by auto
  from assms(3) have "\<exists>x\<in>set (map snd raw_shares). x \<noteq> 0" by force
  with sum_list_nonneg_eq_0_iff [of "map snd raw_shares"] nonneg
  have nz: "?total \<noteq> 0" by blast
  have run: "normalize_shares raw_shares = Inr ?out"
    by (rule normalize_shares_nonzero [OF assms(1) nz])
  have keys: "map fst ?out = map fst raw_shares"
    by (rule keys_divided)
  have "sum_list (map snd ?out) = ?total / ?total"
    by (rule sum_list_divided)
  with nz have one: "sum_list (map snd ?out) = 1" by simp
  have val: "map_of ?out k = Some (v / ?total)" if "map_of raw_shares k = Some v" for k v
    using that by (simp add: map_of_divided)
  have ab: "normalize_shares [(''A'', 3), (''B'', 1)]
              = Inr [(''A'', 75 / 100), (''B'', 25 / 100)]"
    by (simp add: normalize_shares_def py_div_def dict_set_def)
  from run keys val one ab show ?thesis by blast
qed

theorem normalize_shares_sum_one_witness:
  "py_dict [(''v4'', 2), (''v5e'', 0), (''v5p'', 6 :: real)] \<and>
   (\<exists>out. normalize_shares [(''v4'', 2), (''v5e'', 0), (''v5p'', 6)] = Inr out \<and>
      map_of out ''v4'' = Some (1 / 4) \<and> map_of out ''v5p'' = Some (3 / 4) \<and>
      sum_list (map snd out) = 1)"
proof -
  let ?raw = "[(''v4'', 2), (''v5e'', 0), (''v5p'', 6 :: real)]"
  have d: "py_dict ?raw" by (simp add: py_dict_def)
  have nn: "\<forall>(k, v)\<in>set ?raw. 0 \<le> v" by simp
  have pos: "\<exists>(k, v)\<in>set ?raw. 0 < v" by simp
  from normalize_shares_sum_one [OF d nn pos] obtain out where
    run: "normalize_shares ?raw = Inr out" and
    val: "\<forall>k v. map_of ?raw k = Some v \<longrightarrow> map_of out k = Some (v / sum_list (map snd ?raw))"
    and one: "sum_list (map snd out) = 1"
    by blast
  from val [rule_format, of "''v4''" 2] have "map_of out ''v4'' = Some (1 / 4)" by simp
  moreover from val [rule_format, of "''v5p''" 6] have "map_of out ''v5p'' = Some (3 / 4)"
    by simp
  ultimately show ?thesis using d run one by blast
qed

text \<open>
  Claim C5, as stated, fails at the empty mapping: its weights sum to 0, no division is
  done, and \<open>normalize_shares\<close> returns the empty mapping without an error.
\<close>

theorem normalize_shares_empty:
  "sum_list (map snd ([] :: (string, real) dict)) = 0 \<and>
   normalize_shares ([] :: (string, real) dict) = Inr []"
  by (simp add: normalize_shares_def)

text \<open>
  Claim C5, amended. For every non-empty mapping whose weights sum to 0,
  \<open>normalize_shares\<close> raises \<open>ZeroDivisionError\<close> and returns no mapping.
\<close>

theorem normalize_shares_zero_total:
  "raw_shares \<noteq> [] \<Longrightarrow> sum_list (map snd raw_shares) = 0 \<Longrightarrow>
     normalize_shares raw_shares = Inl ZeroDivisionError"
  by (simp add: normalize_shares_def normalize_items_zero)

theorem normalize_shares_zero_total_witness:
  "[(''A'', 0), (''B'', 0 :: real)] \<noteq> [] \<and>
   sum_list (map snd [(''A'', 0), (''B'', 0 :: real)]) = 0 \<and>
   normalize_shares [(''A'', 0), (''B'', 0)] = Inl ZeroDivisionError \<and>
   sum_list (map snd [(''A'', 1), (''B'', - 1 :: real)]) = 0 \<and>
   normalize_shares [(''A'', 1), (''B'', - 1)] = Inl ZeroDivisionError"
  using normalize_shares_zero_total [of "[(''A'', 0), (''B'', 0 :: real)]"]
    normalize_shares_zero_total [of "[(''A'', 1), (''B'', - 1 :: real)]"]
  by simp

section \<open>Properties of \<open>compute_h100_equivalents\<close>\<close>

lemma h100_items_Inl:
  "h100_items chip_specs h100_tops items acc = Inl e \<Longrightarrow>
     e = KeyError \<or> (e = ZeroDivisionError \<and> h100_tops = 0)"
proof (induction items arbitrary: acc)
  case Nil
  then show ?case by simp
next
  case (Cons item items)
  obtain version counts where item: "item = (version, counts)" by (cases item)
  from Cons.prems Cons.IH show ?case
    by (auto simp: item dict_lookup_def py_div_def split: option.splits if_splits)
qed

lemma h100_items_Inr_specs:
  "h100_items chip_specs h100_tops items acc = Inr out \<Longrightarrow> version \<in> fst ` set items \<Longrightarrow>
     map_of chip_specs version \<noteq> None"
proof (induction items arbitrary: acc)
  case Nil
  then show ?case by simp
next
  case (Cons item items)
  obtain v c where item: "item = (v, c)" by (cases item)
  from Cons.prems Cons.IH show ?case
    by (auto simp: item dict_lookup_def py_div_def split: option.splits if_splits)
qed

lemma h100_items_Inr_other:
  "h100_items chip_specs h100_tops items acc = Inr out \<Longrightarrow> version \<notin> fst ` set items \<Longrightarrow>
     map_of out version = map_of acc version"
proof (induction items arbitrary: acc)
  case Nil
  then show ?case by simp
next
  case (Cons item items)
  obtain v c where item: "item = (v, c)" by (cases item)
  from Cons.prems obtain x where
    rest: "h100_items chip_specs h100_tops items (dict_set acc v x) = Inr out"
    by (auto simp: item dict_lookup_def py_div_def split: option.splits if_splits)
  from Cons.prems have "version \<notin> fst ` set items" "version \<noteq> v" by (auto simp: item)
  with Cons.IH [OF rest] show ?case
    by (simp add: dict_set_def update_conv')
qed

lemma h100_items_Inr_value:
  assumes "h100_items chip_specs h100_tops items acc = Inr out"
    and "distinct (map fst items)" and "(version, counts) \<in> set items"
  shows "\<exists>spec tops. dict_lookup chip_specs version = Inr spec \<and>
           dict_lookup spec ''tops'' = Inr tops \<and> h100_tops \<noteq> 0 \<and>
           dict_lookup out version = Inr (scale_counts counts (tops / h100_tops))"
  using assms
proof (induction items arbitrary: acc)
  case Nil
  then show ?case by simp
next
  case (Cons item items)
  obtain v c where item: "item = (v, c)" by (cases item)
  from Cons.prems(1) obtain spec tops where
    spec: "dict_lookup chip_specs v = Inr spec" and tops: "dict_lookup spec ''tops'' = Inr tops"
    and nz: "h100_tops \<noteq> 0"
    and rest: "h100_items chip_specs h100_tops items
                 (dict_set acc v (scale_counts c (tops / h100_tops))) = Inr out"
    by (auto simp: item py_div_def split: sum.splits if_splits)
  show ?case
  proof (cases "(version, counts) = (v, c)")
    case True
    from Cons.prems(2) have "v \<notin> fst ` set items" by (simp add: item)
    from h100_items_Inr_other [OF rest this]
    have "dict_lookup out v = Inr (scale_counts c (tops / h100_tops))"
      by (simp add: dict_lookup_def dict_set_def update_conv')
    with True spec tops nz show ?thesis by auto
  next
    case False
    with Cons.prems have "distinct (map fst items)" "(version, counts) \<in> set items"
      by (auto simp: item)
    from Cons.IH [OF rest this] show ?thesis .
  qed
qed

lemma h100_items_covered:
  assumes "\<forall>(version, counts)\<in>set items. \<exists>spec tops.
             map_of chip_specs version = Some spec \<and> map_of spec ''tops'' = Some tops"
    and "h100_tops \<noteq> 0"
  shows "\<exists>out. h100_items chip_specs h100_tops items acc = Inr out"
  using assms(1)
proof (induction items arbitrary: acc)
  case Nil
  then show ?case by simp
next
  case (Cons item items)
  obtain v c where item: "item = (v, c)" by (cases item)
  from Cons.prems obtain spec tops where
    "map_of chip_specs v = Some spec" "map_of spec ''tops'' = Some tops"
    by (auto simp: item)
  moreover from Cons.prems have "\<forall>(version, counts)\<in>set items. \<exists>spec tops.
             map_of chip_specs version = Some spec \<and> map_of spec ''tops'' = Some tops"
    by simp
  note Cons.IH [OF this]
  ultimately show ?case
    by (simp add: item dict_lookup_def py_div_def assms(2))
qed

lemma update_scale_all:
  "scale_all k (AList.update version counts d)
     = AList.update version (scale_counts counts k) (scale_all k d)"
  by (induction d) (auto simp: scale_all_def)

lemma scale_counts_commute:
  "scale_counts (scale_counts counts k) ratio = scale_counts (scale_counts counts ratio) k"
  by (cases counts) (simp_all add: mult_ac)

lemma h100_items_scale_all:
  "h100_items chip_specs h100_tops (scale_all k items) (scale_all k acc) =
     (case h100_items chip_specs h100_tops items acc of
        Inl e \<Rightarrow> Inl e
      | Inr out \<Rightarrow> Inr (scale_all k out))"
proof (induction items arbitrary: acc)
  case Nil
  then show ?case by (simp add: scale_all_def)
next
  case (Cons item items)
  obtain v c where item: "item = (v, c)" by (cases item)
  have step: "dict_set (scale_all k acc) v (scale_counts (scale_counts c k) ratio)
      = scale_all k (dict_set acc v (scale_counts c ratio))" for ratio
    by (simp add: dict_set_def update_scale_all scale_counts_commute)
  have head: "scale_all k ((v, c) # items) = (v, scale_counts c k) # scale_all k items"
    by (simp add: scale_all_def)
  show ?case
    by (simp add: item head step Cons.IH split: sum.splits)
qed

text \<open>
  Claim C8, as stated, fails when \<open>h100_tops\<close> is 0 and a version that has a spec comes
  before the one that has none: the division for the first raises \<open>ZeroDivisionError\<close>
  before the second is looked up.
\<close>

theorem compute_h100_equivalents_zero_tops:
  "map_of [(''A'', [(''tops'', 100 :: real)])] ''B'' = None \<and>
   compute_h100_equivalents [(''A'', Count 1), (''B'', Count 2)]
     [(''A'', [(''tops'', 100)])] 0 = Inl ZeroDivisionError"
  by (simp add: compute_h100_equivalents_def dict_lookup_def py_div_def)

text \<open>
  Claim C8, amended. When \<open>chip_counts\<close> has a version that is absent from \<open>chip_specs\<close>,
  \<open>compute_h100_equivalents\<close> fails: with a key-lookup error whenever \<open>h100_tops\<close> is not
  0, and otherwise with a key-lookup error or with the \<open>ZeroDivisionError\<close> of an earlier
  item. When it returns, then for every item \<open>(version, counts)\<close> of \<open>chip_counts\<close> the
  version has a spec with a \<open>'tops'\<close> entry and the output at the version is
  \<open>counts * (chip_specs[version]['tops'] / h100_tops)\<close>.
\<close>

theorem compute_h100_equivalents_lookup:
  "(version \<in> fst ` set chip_counts \<and> map_of chip_specs version = None \<longrightarrow>
      (\<exists>e. compute_h100_equivalents chip_counts chip_specs h100_tops = Inl e \<and>
           (e = KeyError \<or> (e = ZeroDivisionError \<and> h100_tops = 0)) \<and>
           (h100_tops \<noteq> 0 \<longrightarrow> e = KeyError)))
   \<and>
   (py_dict chip_counts \<and>
    compute_h100_equivalents chip_counts chip_specs h100_tops = Inr out \<and>
    (version, counts) \<in> set chip_counts \<longrightarrow>
      (\<exists>spec tops. dict_lookup chip_specs version = Inr spec \<and>
         dict_lookup spec ''tops'' = Inr tops \<and>
         dict_lookup out version = Inr (scale_counts counts (tops / h100_tops))))"
proof (intro conjI impI)
  assume a: "version \<in> fst ` set chip_counts \<and> map_of chip_specs version = None"
  show "\<exists>e. compute_h100_equivalents chip_counts chip_specs h100_tops = Inl e \<and>
           (e = KeyError \<or> (e = ZeroDivisionError \<and> h100_tops = 0)) \<and>
           (h100_tops \<noteq> 0 \<longrightarrow> e = KeyError)"
  proof (cases "compute_h100_equivalents chip_counts chip_specs h100_tops")
    case (Inl e)
    from h100_items_Inl [OF Inl [unfolded compute_h100_equivalents_def]] Inl
    show ?thesis by auto
  next
    case (Inr out')
    from h100_items_Inr_specs [OF Inr [unfolded compute_h100_equivalents_def], of version] a
    show ?thesis by simp
  qed
next
  assume a: "py_dict chip_counts \<and>
    compute_h100_equivalents chip_counts chip_specs h100_tops = Inr out \<and>
    (version, counts) \<in> set chip_counts"
  then have "h100_items chip_specs h100_tops chip_counts [] = Inr out"
    and "distinct (map fst chip_counts)" and "(version, counts) \<in> set chip_counts"
    by (simp_all add: compute_h100_equivalents_def py_dict_def)
  from h100_items_Inr_value [OF this]
  show "\<exists>spec tops. dict_lookup chip_specs version = Inr spec \<and>
         dict_lookup spec ''tops'' = Inr tops \<and>
         dict_lookup out version = Inr (scale_counts counts (tops / h100_tops))"
    by blast
qed

theorem compute_h100_equivalents_lookup_witness:
  "''B'' \<in> fst ` set [(''A'', Count 10), (''B'', Samples [1, 2])] \<and>
   map_of [(''A'', [(''tops'', 3958 :: real)])] ''B'' = None \<and>
   compute_h100_equivalents [(''A'', Count 10), (''B'', Samples [1, 2])]
     [(''A'', [(''tops'', 3958)])] default_h100_tops = Inl KeyError \<and>
   py_dict [(''A'', Count 10), (''B'', Samples [1, 2])] \<and>
   compute_h100_equivalents [(''A'', Count 10), (''B'', Samples [1, 2])]
     [(''B'', [(''tops'', 1979)]), (''A'', [(''tops'', 3958)])] default_h100_tops
     = Inr [(''A'', Count 20), (''B'', Samples [1, 2])] \<and>
   dict_lookup [(''A'', Count 20), (''B'', Samples [1, 2])] ''A''
     = Inr (scale_counts (Count 10) (3958 / default_h100_tops))"
proof -
  let ?counts = "[(''A'', Count 10), (''B'', Samples [1, 2])]"
  have absent: "''B'' \<in> fst ` set ?counts \<and>
      map_of [(''A'', [(''tops'', 3958 :: real)])] ''B'' = None" by simp
  have nz: "default_h100_tops \<noteq> 0" by (simp add: default_h100_tops_def)
  from compute_h100_equivalents_lookup [where version = "''B''" and chip_counts = ?counts
      and chip_specs = "[(''A'', [(''tops'', 3958)])]" and h100_tops = default_h100_tops]
    absent nz
  have fails: "compute_h100_equivalents ?counts [(''A'', [(''tops'', 3958)])] default_h100_tops
      = Inl KeyError" by auto
  have d: "py_dict ?counts" by (simp add: py_dict_def)
  have run: "compute_h100_equivalents ?counts
     [(''B'', [(''tops'', 1979)]), (''A'', [(''tops'', 3958)])] default_h100_tops
     = Inr [(''A'', Count 20), (''B'', Samples [1, 2])]"
    by (simp add: compute_h100_equivalents_def dict_lookup_def py_div_def dict_set_def
        default_h100_tops_def)
  from compute_h100_equivalents_lookup [where version = "''A''" and chip_counts = ?counts
      and chip_specs = "[(''B'', [(''tops'', 1979)]), (''A'', [(''tops'', 3958)])]"
      and h100_tops = default_h100_tops
      and out = "[(''A'', Count 20), (''B'', Samples [1, 2])]" and counts = "Count 10"]
    d run
  have "dict_lookup [(''A'', Count 20), (''B'', Samples [1, 2])] ''A''
     = Inr (scale_counts (Count 10) (3958 / default_h100_tops))"
    by (auto simp: dict_lookup_def)
  with absent fails d run show ?thesis by blast
qed

text \<open>
  Claim C9. \<open>compute_h100_equivalents\<close> is linear in the counts: scaling every count by a
  constant \<open>k\<close> and converting gives what converting and then scaling every converted value
  by \<open>k\<close> gives (the same mapping, or the same error when the conversion fails); and for a
  \<open>chip_counts\<close> covered by \<open>chip_specs\<close>, with a non-zero \<open>h100_tops\<close>, both are mappings.
\<close>

theorem compute_h100_equivalents_linear:
  "compute_h100_equivalents (scale_all k chip_counts) chip_specs h100_tops =
     (case compute_h100_equivalents chip_counts chip_specs h100_tops of
        Inl e \<Rightarrow> Inl e
      | Inr out \<Rightarrow> Inr (scale_all k out))
   \<and>
   ((\<forall>(version, counts)\<in>set chip_counts. \<exists>spec tops.
        map_of chip_specs version = Some spec \<and> map_of spec ''tops'' = Some tops) \<and>
    h100_tops \<noteq> 0 \<longrightarrow>
      (\<exists>out. compute_h100_equivalents chip_counts chip_specs h100_tops = Inr out \<and>
         compute_h100_equivalents (scale_all k chip_counts) chip_specs h100_tops
           = Inr (scale_all k out)))"
proof -
  have eq: "compute_h100_equivalents (scale_all k chip_counts) chip_specs h100_tops =
     (case compute_h100_equivalents chip_counts chip_specs h100_tops of
        Inl e \<Rightarrow> Inl e
      | Inr out \<Rightarrow> Inr (scale_all k out))"
    using h100_items_scale_all [of chip_specs h100_tops k chip_counts "[]"]
    by (simp add: compute_h100_equivalents_def scale_all_def)
  have "\<exists>out. compute_h100_equivalents chip_counts chip_specs h100_tops = Inr out \<and>
         compute_h100_equivalents (scale_all k chip_counts) chip_specs h100_tops
           = Inr (scale_all k out)"
    if "(\<forall>(version, counts)\<in>set chip_counts. \<exists>spec tops.
        map_of chip_specs version = Some spec \<and> map_of spec ''tops'' = Some tops) \<and>
      h100_tops \<noteq> 0"
  proof -
    from that h100_items_covered [of chip_counts chip_specs h100_tops "[]"]
    obtain out where "compute_h100_equivalents chip_counts chip_specs h100_tops = Inr out"
      by (auto simp: compute_h100_equivalents_def)
    with eq show ?thesis by simp
  qed
  with eq show ?thesis by blast
qed

theorem compute_h100_equivalents_linear_witness:
  "compute_h100_equivalents (scale_all 3 [(''A'', Count 10), (''B'', Samples [1, 2])])
     [(''B'', [(''tops'', 1979)]), (''A'', [(''tops'', 3958)])] default_h100_tops
     = Inr (scale_all 3 [(''A'', Count 20), (''B'', Samples [1, 2])]) \<and>
   scale_all 3 [(''A'', Count 20), (''B'', Samples [1, 2])]
     = [(''A'', Count 60), (''B'', Samples [3, 6])]"
proof -
  let ?counts = "[(''A'', Count 10), (''B'', Samples [1, 2])]"
  let ?specs = "[(''B'', [(''tops'', 1979 :: real)]), (''A'', [(''tops'', 3958)])]"
  have run: "compute_h100_equivalents ?counts ?specs default_h100_tops
     = Inr [(''A'', Count 20), (''B'', Samples [1, 2])]"
    by (simp add: compute_h100_equivalents_def dict_lookup_def py_div_def dict_set_def
        default_h100_tops_def)
  have cov: "(\<forall>(version, counts)\<in>set ?counts. \<exists>spec tops.
        map_of ?specs version = Some spec \<and> map_of spec ''tops'' = Some tops) \<and>
      default_h100_tops \<noteq> 0"
    by (simp add: default_h100_tops_def)
  from compute_h100_equivalents_linear [where k = 3 and chip_counts = ?counts
      and chip_specs = ?specs and h100_tops = default_h100_tops] cov run
  have "compute_h100_equivalents (scale_all 3 ?counts) ?specs default_h100_tops
     = Inr (scale_all 3 [(''A'', Count 20), (''B'', Samples [1, 2])])"
    by auto
  moreover have "scale_all 3 [(''A'', Count 20), (''B'', Samples [1, 2])]
     = [(''A'', Count 60), (''B'', Samples [3, 6])]"
    by (simp add: scale_all_def)
  ultimately show ?thesis by blast
qed

section \<open>Properties of \<open>get_percentiles\<close>\<close>

text \<open>The interpolation index of a percentile in \<open>[0, 100]\<close> stays inside the samples.\<close>

lemma percentile_index:
  fixes p :: real and n :: nat
  assumes "0 \<le> p" and "p \<le> 100" and "0 < n"
  defines "h \<equiv> p / 100 * real (n - 1)"
  shows "0 \<le> \<lfloor>h\<rfloor>" and "\<lfloor>h\<rfloor> \<le> \<lceil>h\<rceil>" and "nat \<lfloor>h\<rfloor> < n" and "nat \<lceil>h\<rceil> < n"
proof -
  have h0: "0 \<le> h" using assms(1) by (simp add: h_def)
  have "p / 100 * real (n - 1) \<le> 1 * real (n - 1)"
    using assms(2) by (intro mult_right_mono) auto
  then have h1: "h \<le> real (n - 1)" by (simp add: h_def)
  show "0 \<le> \<lfloor>h\<rfloor>" using h0 by simp
  show "\<lfloor>h\<rfloor> \<le> \<lceil>h\<rceil>" by (rule floor_le_ceiling)
  from h1 have c: "\<lceil>h\<rceil> \<le> int (n - 1)" by (simp add: ceiling_le_iff)
  with assms(3) show "nat \<lceil>h\<rceil> < n" by linarith
  from c floor_le_ceiling [of h] assms(3) show "nat \<lfloor>h\<rfloor> < n" by linarith
qed

lemma np_percentile_value:
  assumes "samples \<noteq> []" and "0 \<le> p" and "p \<le> 100"
  shows "np_percentile samples p =
           Inr (sort samples ! nat \<lfloor>p / 100 * real (length samples - 1)\<rfloor> +
                (p / 100 * real (length samples - 1)
                   - of_int \<lfloor>p / 100 * real (length samples - 1)\<rfloor>) *
                (sort samples ! nat \<lceil>p / 100 * real (length samples - 1)\<rceil> -
                 sort samples ! nat \<lfloor>p / 100 * real (length samples - 1)\<rfloor>))"
  using assms by (simp add: np_percentile_def Let_def)

lemma np_percentile_constant:
  assumes "samples \<noteq> []" and "set samples \<subseteq> {v}" and "0 \<le> p" and "p \<le> 100"
  shows "np_percentile samples p = Inr v"
proof -
  let ?h = "p / 100 * real (length samples - 1)"
  from assms(1) have n: "0 < length samples" by simp
  have at: "sort samples ! i = v" if "i < length samples" for i
  proof -
    from that have "i < length (sort samples)" by simp
    from nth_mem [OF this] have "sort samples ! i \<in> set samples" by simp
    with assms(2) show ?thesis by auto
  qed
  from percentile_index(3,4) [OF assms(3,4) n]
  have "sort samples ! nat \<lfloor>?h\<rfloor> = v" "sort samples ! nat \<lceil>?h\<rceil> = v"
    by (simp_all add: at)
  with np_percentile_value [OF assms(1,3,4)] show ?thesis by simp
qed

lemma percentile_items_Inr:
  assumes "\<forall>p\<in>set percentiles. np_percentile samples p = Inr (f p)"
  shows "percentile_items samples percentiles acc
           = Inr (fold (\<lambda>p d. dict_set d p (f p)) percentiles acc)"
  using assms by (induction percentiles arbitrary: acc) auto

text \<open>
  Claim C7. For a non-empty sample sequence of length \<open>n\<close> and percentiles in \<open>[0, 100]\<close>,
  \<open>get_percentiles\<close> returns a mapping that has at each requested key \<open>p\<close> the linearly
  interpolated order statistic: with \<open>h = p/100 * (n-1)\<close>, the value between the sorted
  samples at the positions \<open>floor(h)\<close> and \<open>ceil(h)\<close>, both of which are positions of the
  sequence. Applied to a constant sequence of value \<open>v\<close> it returns \<open>v\<close> at every requested
  percentile.
\<close>

theorem get_percentiles_interpolates:
  assumes "samples \<noteq> []" and "\<forall>p\<in>set percentiles. 0 \<le> p \<and> p \<le> 100"
  shows "\<exists>out. get_percentiles samples percentiles = Inr out \<and>
           (\<forall>p\<in>set percentiles.
              (let h = p / 100 * real (length samples - 1) in
                 0 \<le> \<lfloor>h\<rfloor> \<and> \<lfloor>h\<rfloor> \<le> \<lceil>h\<rceil> \<and> nat \<lceil>h\<rceil> < length samples \<and>
                 dict_lookup out p =
                   Inr (sort samples ! nat \<lfloor>h\<rfloor> +
                        (h - of_int \<lfloor>h\<rfloor>) *
                        (sort samples ! nat \<lceil>h\<rceil> - sort samples ! nat \<lfloor>h\<rfloor>)))) \<and>
           (\<forall>v. set samples \<subseteq> {v} \<longrightarrow> (\<forall>p\<in>set percentiles. dict_lookup out p = Inr v))"
proof -
  define f where "f p = (let h = p / 100 * real (length samples - 1) in
      sort samples ! nat \<lfloor>h\<rfloor> +
        (h - of_int \<lfloor>h\<rfloor>) * (sort samples ! nat \<lceil>h\<rceil> - sort samples ! nat \<lfloor>h\<rfloor>))" for p
  define out where "out = fold (\<lambda>p d. dict_set d p (f p)) percentiles []"
  have val: "np_percentile samples p = Inr (f p)" if "p \<in> set percentiles" for p
    using np_percentile_value [OF assms(1), of p] assms(2) that by (simp add: f_def Let_def)
  then have run: "get_percentiles samples percentiles = Inr out"
    by (simp add: get_percentiles_def out_def percentile_items_Inr)
  have at: "dict_lookup out p = Inr (f p)" if "p \<in> set percentiles" for p
    using that by (simp add: dict_lookup_def out_def map_of_fold_dict_set)
  from assms(1) have n: "0 < length samples" by simp
  have interp: "let h = p / 100 * real (length samples - 1) in
                 0 \<le> \<lfloor>h\<rfloor> \<and> \<lfloor>h\<rfloor> \<le> \<lceil>h\<rceil> \<and> nat \<lceil>h\<rceil> < length samples \<and>
                 dict_lookup out p =
                   Inr (sort samples ! nat \<lfloor>h\<rfloor> +
                        (h - of_int \<lfloor>h\<rfloor>) *
                        (sort samples ! nat \<lceil>h\<rceil> - sort samples ! nat \<lfloor>h\<rfloor>))"
    if p: "p \<in> set percentiles" for p
  proof -
    from assms(2) p have "0 \<le> p" "p \<le> 100" by auto
    note idx = percentile_index(1,2,4) [OF this n]
    have "dict_lookup out p = Inr (f p)" by (rule at [OF p])
    then have "dict_lookup out p =
        Inr (sort samples ! nat \<lfloor>p / 100 * real (length samples - 1)\<rfloor> +
             (p / 100 * real (length samples - 1)
                - of_int \<lfloor>p / 100 * real (length samples - 1)\<rfloor>) *
             (sort samples ! nat \<lceil>p / 100 * real (length samples - 1)\<rceil> -
              sort samples ! nat \<lfloor>p / 100 * real (length samples - 1)\<rfloor>))"
      unfolding f_def Let_def .
    with idx show ?thesis unfolding Let_def by blast
  qed
  have const: "dict_lookup out p = Inr v" if "set samples \<subseteq> {v}" and p: "p \<in> set percentiles"
    for v p
  proof -
    from assms(2) p have "0 \<le> p" "p \<le> 100" by auto
    from np_percentile_constant [OF assms(1) that(1) this] val [OF p] at [OF p]
    show ?thesis by simp
  qed
  from run interp const show ?thesis by blast
qed

theorem get_percentiles_interpolates_witness:
  "[4, 1, 3, 2 :: real] \<noteq> [] \<and>
   get_percentiles [4, 1, 3, 2] default_percentiles
     = Inr [(5, 23 / 20), (50, 5 / 2), (95, 77 / 20)] \<and>
   set [7, 7, 7 :: real] \<subseteq> {7} \<and>
   get_percentiles [7, 7, 7] default_percentiles = Inr [(5, 7), (50, 7), (95, 7)] \<and>
   (\<exists>out. get_percentiles [7, 7, 7] default_percentiles = Inr out \<and>
      (\<forall>p\<in>set default_percentiles. dict_lookup out p = Inr 7))"
proof -
  have ne: "[7, 7, 7 :: real] \<noteq> []" by simp
  have rng: "\<forall>p\<in>set default_percentiles. 0 \<le> p \<and> p \<le> 100"
    by (simp add: default_percentiles_def)
  have c: "set [7, 7, 7 :: real] \<subseteq> {7}" by simp
  from get_percentiles_interpolates [OF ne rng] c
  have const: "\<exists>out. get_percentiles [7, 7, 7] default_percentiles = Inr out \<and>
      (\<forall>p\<in>set default_percentiles. dict_lookup out p = Inr 7)"
    by blast
  have f1: "\<lfloor>3 / 20 :: real\<rfloor> = 0" "\<lceil>3 / 20 :: real\<rceil> = 1" "\<lfloor>3 / 2 :: real\<rfloor> = 1" "\<lceil>3 / 2 :: real\<rceil> = 2"
    "\<lfloor>57 / 20 :: real\<rfloor> = 2" "\<lceil>57 / 20 :: real\<rceil> = 3"
    by (simp_all add: floor_eq_iff ceiling_eq_iff)
  have f2: "\<lfloor>1 / 10 :: real\<rfloor> = 0" "\<lceil>1 / 10 :: real\<rceil> = 1" "\<lfloor>19 / 10 :: real\<rfloor> = 1"
    "\<lceil>19 / 10 :: real\<rceil> = 2"
    by (simp_all add: floor_eq_iff ceiling_eq_iff)
  have run: "get_percentiles [4, 1, 3, 2] default_percentiles
     = Inr [(5, 23 / 20), (50, 5 / 2), (95, 77 / 20)]"
    by (simp add: get_percentiles_def default_percentiles_def np_percentile_def dict_set_def
        f1 numeral_3_eq_3)
  have run7: "get_percentiles [7, 7, 7] default_percentiles = Inr [(5, 7), (50, 7), (95, 7)]"
    by (simp add: get_percentiles_def default_percentiles_def np_percentile_def dict_set_def
        f2 numeral_2_eq_2)
  from const run run7 c show ?thesis by simp
qed

section \<open>Properties of \<open>summarize_quarterly_by_chip\<close>\<close>

lemma percentile_text_Inr: "arr \<noteq> [] \<Longrightarrow> \<exists>t. percentile_text format_fn arr = Inr t"
  by (simp add: percentile_text_def np_percentile_def Let_def)

lemma np_iadd_same_length:
  "length arr = length total_arr \<Longrightarrow> np_iadd total_arr arr = Inr (map2 (+) total_arr arr)"
  by (simp add: np_iadd_def)

text \<open>Over arrays as long as the total, the chip loop adds the arrays one after the other.\<close>

lemma chip_type_loop_total:
  assumes "dict_lookup results quarter = Inr by_chip"
    and "\<forall>c\<in>set chip_types. \<exists>arr. map_of by_chip c = Some arr \<and> length arr = length total_arr"
  shows "\<exists>row'. chip_type_loop results format_fn quarter chip_types (row, total_arr)
           = Inr (row', fold (\<lambda>c t. map2 (+) t (the (map_of by_chip c))) chip_types total_arr)"
  using assms(2)
proof (induction chip_types arbitrary: row total_arr)
  case Nil
  then show ?case by simp
next
  case (Cons c chip_types)
  from Cons.prems obtain arr where arr: "map_of by_chip c = Some arr"
    and len: "length arr = length total_arr" by auto
  let ?t = "map2 (+) total_arr arr"
  have lent: "length ?t = length total_arr" using len by simp
  from Cons.prems have "\<forall>c\<in>set chip_types. \<exists>arr. map_of by_chip c = Some arr \<and>
      length arr = length total_arr"
    by simp
  then have rest: "\<forall>c\<in>set chip_types. \<exists>arr. map_of by_chip c = Some arr \<and>
      length arr = length ?t"
    by (simp only: lent)
  have look: "dict_lookup by_chip c = Inr arr" by (simp add: dict_lookup_def arr)
  show ?case
  proof (cases "sum_list arr > 0")
    case True
    then have "arr \<noteq> []" by auto
    from percentile_text_Inr [OF this] obtain t where
      t: "percentile_text format_fn arr = Inr t" by blast
    from Cons.IH [OF rest, of "dict_set row c t"] obtain row' where
      "chip_type_loop results format_fn quarter chip_types (dict_set row c t, ?t)
         = Inr (row', fold (\<lambda>c t. map2 (+) t (the (map_of by_chip c))) chip_types ?t)"
      by blast
    with True show ?thesis
      by (simp add: assms(1) look np_iadd_same_length [OF len] t arr)
  next
    case False
    from Cons.IH [OF rest, of "dict_set row c ''-''"] obtain row' where
      "chip_type_loop results format_fn quarter chip_types (dict_set row c ''-'', ?t)
         = Inr (row', fold (\<lambda>c t. map2 (+) t (the (map_of by_chip c))) chip_types ?t)"
      by blast
    with False show ?thesis
      by (simp add: assms(1) look np_iadd_same_length [OF len] arr)
  qed
qed

lemma fold_map2_sum:
  assumes "\<forall>arr\<in>set arrs. length arr = n" and "length t = n"
  shows "fold (\<lambda>arr t. map2 (+) t arr) arrs t
           = map (\<lambda>j. t ! j + sum_list (map (\<lambda>arr. arr ! j) arrs)) [0..<n]"
  using assms
proof (induction arrs arbitrary: t)
  case Nil
  then have n: "n = length t" by simp
  show ?case unfolding n by (simp add: map_nth)
next
  case (Cons a arrs)
  from Cons.prems have la: "length a = n" and lt: "length (map2 (+) t a) = n"
    and rest: "\<forall>arr\<in>set arrs. length arr = n" by simp_all
  have "fold (\<lambda>arr t. map2 (+) t arr) (a # arrs) t
          = map (\<lambda>j. map2 (+) t a ! j + sum_list (map (\<lambda>arr. arr ! j) arrs)) [0..<n]"
    using Cons.IH [OF rest lt] by simp
  also have "\<dots> = map (\<lambda>j. t ! j + sum_list (map (\<lambda>arr. arr ! j) (a # arrs))) [0..<n]"
    using la Cons.prems(2) by (intro map_cong) (auto simp: add.assoc)
  finally show ?case .
qed

lemma fold_from_zeros:
  assumes "\<forall>arr\<in>set arrs. length arr = n"
  shows "fold (\<lambda>arr t. map2 (+) t arr) arrs (replicate n 0) = elementwise_sum n arrs"
  using fold_map2_sum [OF assms, of "replicate n 0"]
  by (simp add: elementwise_sum_def cong: map_cong)

lemma values_in_key_order:
  "distinct (map fst d) \<Longrightarrow> map (\<lambda>k. the (map_of d k)) (map fst d) = map snd d"
proof (induction d)
  case Nil
  then show ?case by simp
next
  case (Cons item d)
  obtain k v where item: "item = (k, v)" by (cases item)
  from Cons.prems have "k \<notin> fst ` set d" and d: "distinct (map fst d)" by (auto simp: item)
  then have "map (\<lambda>k'. the (map_of ((k, v) # d) k')) (map fst d)
           = map (\<lambda>k'. the (map_of d k')) (map fst d)"
    by (intro map_cong) auto
  with Cons.IH [OF d] show ?case by (simp add: item)
qed

text \<open>
  The row of a quarter, in a table where every cell of the quarter has \<open>n\<close> samples: its
  \<open>'Total'\<close> is the percentile text of the elementwise sum of the quarter's cells.
\<close>

lemma summary_row_total:
  assumes "map_of results quarter = Some by_chip" and "py_dict by_chip"
    and "\<forall>(chip_type, arr)\<in>set by_chip. length arr = n" and "0 < n"
  shows "\<exists>row total_text.
           summary_row results format_fn n (map fst by_chip) quarter = Inr row \<and>
           percentile_text format_fn (elementwise_sum n (map snd by_chip)) = Inr total_text \<and>
           dict_lookup row ''Total'' = Inr total_text"
proof -
  let ?zeros = "replicate n (0 :: real)"
  have look: "dict_lookup results quarter = Inr by_chip"
    by (simp add: dict_lookup_def assms(1))
  have d: "distinct (map fst by_chip)" using assms(2) by (simp add: py_dict_def)
  have cells: "\<forall>c\<in>set (map fst by_chip). \<exists>arr. map_of by_chip c = Some arr \<and>
      length arr = length ?zeros"
  proof
    fix c assume "c \<in> set (map fst by_chip)"
    then obtain arr where in_set: "(c, arr) \<in> set by_chip" by auto
    with d have "map_of by_chip c = Some arr" by simp
    moreover from in_set assms(3) have "length arr = n" by auto
    ultimately show "\<exists>arr. map_of by_chip c = Some arr \<and> length arr = length ?zeros" by simp
  qed
  from chip_type_loop_total [OF look cells, of format_fn "[(''Quarter'', quarter)]"]
  obtain row' where loop:
    "chip_type_loop results format_fn quarter (map fst by_chip) ([(''Quarter'', quarter)], ?zeros)
       = Inr (row', fold (\<lambda>c t. map2 (+) t (the (map_of by_chip c))) (map fst by_chip) ?zeros)"
    by blast
  have "fold (\<lambda>c t. map2 (+) t (the (map_of by_chip c))) (map fst by_chip) ?zeros
          = fold (\<lambda>arr t. map2 (+) t arr) (map (\<lambda>c. the (map_of by_chip c)) (map fst by_chip))
              ?zeros"
    by (simp add: fold_map comp_def)
  also have "\<dots> = fold (\<lambda>arr t. map2 (+) t arr) (map snd by_chip) ?zeros"
    by (simp only: values_in_key_order [OF d])
  also have "\<dots> = elementwise_sum n (map snd by_chip)"
    using assms(3) by (intro fold_from_zeros) auto
  finally have total_arr:
    "fold (\<lambda>c t. map2 (+) t (the (map_of by_chip c))) (map fst by_chip) ?zeros
       = elementwise_sum n (map snd by_chip)" .
  have "elementwise_sum n (map snd by_chip) \<noteq> []"
    using assms(4) by (simp add: elementwise_sum_def)
  from percentile_text_Inr [OF this] obtain total_text where
    t: "percentile_text format_fn (elementwise_sum n (map snd by_chip)) = Inr total_text"
    by blast
  have "summary_row results format_fn n (map fst by_chip) quarter
          = Inr (dict_set row' ''Total'' total_text)"
    by (simp add: summary_row_def loop total_arr t)
  moreover have "dict_lookup (dict_set row' ''Total'' total_text) ''Total'' = Inr total_text"
    by (simp add: dict_lookup_def dict_set_def update_conv')
  ultimately show ?thesis using t by blast
qed

lemma summary_rows_total:
  assumes "\<forall>quarter\<in>set quarters. \<exists>by_chip. map_of results quarter = Some by_chip \<and>
             py_dict by_chip \<and> map fst by_chip = chip_types \<and>
             (\<forall>(chip_type, arr)\<in>set by_chip. length arr = n)"
    and "0 < n"
  shows "\<exists>rows'. summary_rows results format_fn n chip_types quarters rows = Inr (rows @ rows') \<and>
           list_all2 (\<lambda>quarter row. \<exists>by_chip total_text.
               map_of results quarter = Some by_chip \<and>
               percentile_text format_fn (elementwise_sum n (map snd by_chip)) = Inr total_text \<and>
               dict_lookup row ''Total'' = Inr total_text) quarters rows'"
  using assms(1)
proof (induction quarters arbitrary: rows)
  case Nil
  then show ?case by simp
next
  case (Cons quarter quarters)
  from Cons.prems obtain by_chip where q: "map_of results quarter = Some by_chip"
    and d: "py_dict by_chip" and keys: "map fst by_chip = chip_types"
    and len: "\<forall>(chip_type, arr)\<in>set by_chip. length arr = n"
    by auto
  from summary_row_total [OF q d len assms(2), of format_fn] keys obtain row total_text where
    row: "summary_row results format_fn n chip_types quarter = Inr row" and
    t: "percentile_text format_fn (elementwise_sum n (map snd by_chip)) = Inr total_text" and
    tot: "dict_lookup row ''Total'' = Inr total_text"
    by auto
  from Cons.prems have "\<forall>quarter\<in>set quarters. \<exists>by_chip. map_of results quarter = Some by_chip \<and>
             py_dict by_chip \<and> map fst by_chip = chip_types \<and>
             (\<forall>(chip_type, arr)\<in>set by_chip. length arr = n)"
    by simp
  from Cons.IH [OF this, of "rows @ [row]"] obtain rows' where
    rest: "summary_rows results format_fn n chip_types quarters (rows @ [row])
             = Inr ((rows @ [row]) @ rows')" and
    all: "list_all2 (\<lambda>quarter row. \<exists>by_chip total_text.
               map_of results quarter = Some by_chip \<and>
               percentile_text format_fn (elementwise_sum n (map snd by_chip)) = Inr total_text \<and>
               dict_lookup row ''Total'' = Inr total_text) quarters rows'"
    by blast
  have "summary_rows results format_fn n chip_types (quarter # quarters) rows
          = Inr (rows @ (row # rows'))"
    by (simp add: row rest)
  moreover have "list_all2 (\<lambda>quarter row. \<exists>by_chip total_text.
               map_of results quarter = Some by_chip \<and>
               percentile_text format_fn (elementwise_sum n (map snd by_chip)) = Inr total_text \<and>
               dict_lookup row ''Total'' = Inr total_text) (quarter # quarters) (row # rows')"
    using q t tot all by auto
  ultimately show ?case by blast
qed

lemma summarize_quarterly_by_chip_unfold:
  assumes "results = (quarter0, (chip_type0, cell0) # rest0) # rest"
  shows "summarize_quarterly_by_chip results format_fn =
     (case summary_rows results format_fn (length cell0) (chip_type0 # map fst rest0)
             (map fst results) [] of
        Inl e \<Rightarrow> Inl e
      | Inr rows \<Rightarrow>
          Inr \<lparr>columns = ''Quarter'' # (chip_type0 # map fst rest0) @ [''Total''],
               records = rows\<rparr>)"
  unfolding assms by (simp add: summarize_quarterly_by_chip_def Let_def)

lemma summarize_quarterly_by_chip_total:
  assumes "py_dict results" and "results \<noteq> []" and "chip_types \<noteq> []" and "0 < n"
    and "\<forall>(quarter, by_chip)\<in>set results.
           py_dict by_chip \<and> map fst by_chip = chip_types \<and>
           (\<forall>(chip_type, arr)\<in>set by_chip. length arr = n)"
  shows "\<exists>frame. summarize_quarterly_by_chip results format_fn = Inr frame \<and>
           columns frame = ''Quarter'' # chip_types @ [''Total''] \<and>
           length (records frame) = length results \<and>
           (\<forall>i<length results. \<exists>total_text.
              percentile_text format_fn (elementwise_sum n (map snd (snd (results ! i))))
                = Inr total_text \<and>
              dict_lookup (records frame ! i) ''Total'' = Inr total_text)"
proof -
  from assms(2) obtain quarter0 by_chip0 rest where
    res: "results = (quarter0, by_chip0) # rest"
    by (cases results) auto
  from assms(5) res have keys0: "map fst by_chip0 = chip_types"
    and len0: "\<forall>(chip_type, arr)\<in>set by_chip0. length arr = n" by auto
  from keys0 assms(3) obtain chip_type0 cell0 rest0 where
    row0: "by_chip0 = (chip_type0, cell0) # rest0"
    by (cases by_chip0) auto
  from len0 row0 have n0: "length cell0 = n" by simp
  have d: "distinct (map fst results)" using assms(1) by (simp add: py_dict_def)
  have each: "\<forall>quarter\<in>set (map fst results). \<exists>by_chip. map_of results quarter = Some by_chip \<and>
             py_dict by_chip \<and> map fst by_chip = chip_types \<and>
             (\<forall>(chip_type, arr)\<in>set by_chip. length arr = n)"
  proof
    fix quarter assume "quarter \<in> set (map fst results)"
    then obtain by_chip where in_set: "(quarter, by_chip) \<in> set results" by auto
    with d have "map_of results quarter = Some by_chip" by simp
    with in_set assms(5) show "\<exists>by_chip. map_of results quarter = Some by_chip \<and>
             py_dict by_chip \<and> map fst by_chip = chip_types \<and>
             (\<forall>(chip_type, arr)\<in>set by_chip. length arr = n)" by auto
  qed
  from summary_rows_total [OF each assms(4), of format_fn "[]"] obtain rows where
    run: "summary_rows results format_fn n chip_types (map fst results) [] = Inr rows" and
    all: "list_all2 (\<lambda>quarter row. \<exists>by_chip total_text.
               map_of results quarter = Some by_chip \<and>
               percentile_text format_fn (elementwise_sum n (map snd by_chip)) = Inr total_text \<and>
               dict_lookup row ''Total'' = Inr total_text) (map fst results) rows"
    by auto
  let ?frame = "\<lparr>columns = ''Quarter'' # chip_types @ [''Total''], records = rows\<rparr>"
  from keys0 have keys: "chip_type0 # map fst rest0 = chip_types" by (simp add: row0)
  have ret: "summarize_quarterly_by_chip results format_fn = Inr ?frame"
    using summarize_quarterly_by_chip_unfold [OF res [unfolded row0], of format_fn]
    unfolding keys n0 run by simp
  from all have len: "length rows = length results"
    by (auto dest: list_all2_lengthD)
  have tot: "\<exists>total_text.
              percentile_text format_fn (elementwise_sum n (map snd (snd (results ! i))))
                = Inr total_text \<and>
              dict_lookup (rows ! i) ''Total'' = Inr total_text"
    if i: "i < length results" for i
  proof -
    from i have "results ! i \<in> set results" by simp
    then have "(fst (results ! i), snd (results ! i)) \<in> set results" by simp
    with d have here: "map_of results (fst (results ! i)) = Some (snd (results ! i))"
      by (simp only: map_of_is_SomeI)
    from list_all2_nthD [OF all, of i] i obtain by_chip total_text where
      "map_of results (fst (results ! i)) = Some by_chip"
      "percentile_text format_fn (elementwise_sum n (map snd by_chip)) = Inr total_text"
      "dict_lookup (rows ! i) ''Total'' = Inr total_text"
      by auto
    with here show ?thesis by auto
  qed
  from ret len tot show ?thesis by auto
qed

lemma small_floors:
  "\<lfloor>1 / 10 :: real\<rfloor> = 0" "\<lceil>1 / 10 :: real\<rceil> = 1" "\<lfloor>19 / 10 :: real\<rfloor> = 1"
  "\<lceil>19 / 10 :: real\<rceil> = 2" "\<lfloor>27 / 10 :: real\<rfloor> = 2" "\<lfloor>3 / 10 :: real\<rfloor> = 0"
  by (simp_all add: floor_eq_iff ceiling_eq_iff)

lemma format_thousands_values:
  "format_thousands 0 = ''0k''" "format_thousands 2700 = ''3k''"
  "format_thousands 300 = ''0k''" "format_thousands 3000 = ''3k''"
  by (simp_all add: format_thousands_def py_round_def str_int_def small_floors Let_def
      str_nat.simps [of 0] str_nat.simps [of 3])

lemma percentile_text_values:
  "percentile_text format_thousands [0, 3000, 0] = Inr ''0k (0k-3k)''"
  "percentile_text format_thousands [0, 0, 3000] = Inr ''0k (0k-3k)''"
  "percentile_text format_thousands [0, 3000, 3000] = Inr ''3k (0k-3k)''"
  by (simp_all add: percentile_text_def np_percentile_def small_floors
      format_thousands_values numeral_2_eq_2)

lemma median_values:
  "np_percentile [0, 3000, 0] 50 = Inr 0" "np_percentile [0, 0, 3000] 50 = Inr 0"
  "np_percentile [0, 3000, 3000] 50 = Inr 3000"
  by (simp_all add: np_percentile_def)

lemma elementwise_sum_example:
  "elementwise_sum 3 [[0, 3000, 0], [0, 0, 3000]] = [0, 3000, 3000]"
  by (simp add: elementwise_sum_def upt_rec numeral_3_eq_3 numeral_2_eq_2)

text \<open>
  Claim C6. In a table whose cells all have \<open>n\<close> samples (\<open>n > 0\<close>) for the same chip
  types, \<open>summarize_quarterly_by_chip\<close> returns a frame with one record per quarter, whose
  \<open>'Total'\<close> is the percentile text (p50, p5 and p95 through \<open>format_fn\<close>) of the
  elementwise sum of the quarter's sample arrays: the arrays are summed first and the
  percentiles are taken of the sum. The order matters: for the table
  \<open>{"Q1": {"A": [0, 3000, 0], "B": [0, 0, 3000]}}\<close> the p50 of the summed array is 3000,
  while the p50 of A and the p50 of B are both 0, and the frame shows \<open>3k\<close> as the median
  of the total next to \<open>0k\<close> for A and for B.
\<close>

theorem summarize_total_sums_before_percentiles:
  assumes "py_dict results" and "results \<noteq> []" and "chip_types \<noteq> []" and "0 < n"
    and "\<forall>(quarter, by_chip)\<in>set results.
           py_dict by_chip \<and> map fst by_chip = chip_types \<and>
           (\<forall>(chip_type, arr)\<in>set by_chip. length arr = n)"
  shows "(\<exists>frame. summarize_quarterly_by_chip results format_fn = Inr frame \<and>
            length (records frame) = length results \<and>
            (\<forall>i<length results. \<exists>total_text.
               percentile_text format_fn (elementwise_sum n (map snd (snd (results ! i))))
                 = Inr total_text \<and>
               dict_lookup (records frame ! i) ''Total'' = Inr total_text))
         \<and>
         (np_percentile (elementwise_sum 3 [[0, 3000, 0], [0, 0, 3000]]) 50 = Inr 3000 \<and>
          np_percentile [0, 3000, 0] 50 = Inr 0 \<and>
          np_percentile [0, 0, 3000] 50 = Inr 0 \<and>
          summarize_quarterly_by_chip
            [(''Q1'', [(''A'', [0, 3000, 0]), (''B'', [0, 0, 3000])])] format_thousands
            = Inr \<lparr>columns = [''Quarter'', ''A'', ''B'', ''Total''],
                   records = [[(''Quarter'', ''Q1''), (''A'', ''0k (0k-3k)''),
                               (''B'', ''0k (0k-3k)''), (''Total'', ''3k (0k-3k)'')]]\<rparr>)"
proof -
  from summarize_quarterly_by_chip_total [OF assms, of format_fn]
  have general: "\<exists>frame. summarize_quarterly_by_chip results format_fn = Inr frame \<and>
            length (records frame) = length results \<and>
            (\<forall>i<length results. \<exists>total_text.
               percentile_text format_fn (elementwise_sum n (map snd (snd (results ! i))))
                 = Inr total_text \<and>
               dict_lookup (records frame ! i) ''Total'' = Inr total_text)"
    by blast
  have run: "summarize_quarterly_by_chip
            [(''Q1'', [(''A'', [0, 3000, 0]), (''B'', [0, 0, 3000])])] format_thousands
            = Inr \<lparr>columns = [''Quarter'', ''A'', ''B'', ''Total''],
                   records = [[(''Quarter'', ''Q1''), (''A'', ''0k (0k-3k)''),
                               (''B'', ''0k (0k-3k)''), (''Total'', ''3k (0k-3k)'')]]\<rparr>"
    by (simp add: summarize_quarterly_by_chip_def summary_row_def dict_lookup_def np_iadd_def
        percentile_text_values dict_set_def)
  from general run median_values show ?thesis
    by (simp only: elementwise_sum_example simp_thms)
qed

theorem summarize_total_sums_before_percentiles_witness:
  "py_dict [(''Q1'', [(''A'', [0, 3000, 0]), (''B'', [0, 0, 3000 :: real])])] \<and>
   (\<exists>frame. summarize_quarterly_by_chip
       [(''Q1'', [(''A'', [0, 3000, 0]), (''B'', [0, 0, 3000])])] format_thousands = Inr frame \<and>
      length (records frame) = 1 \<and>
      percentile_text format_thousands (elementwise_sum 3 [[0, 3000, 0], [0, 0, 3000]])
        = Inr ''3k (0k-3k)'' \<and>
      dict_lookup (records frame ! 0) ''Total'' = Inr ''3k (0k-3k)'')"
proof -
  let ?results = "[(''Q1'', [(''A'', [0, 3000, 0]), (''B'', [0, 0, 3000 :: real])])]"
  have d: "py_dict ?results" by (simp add: py_dict_def)
  have ne: "?results \<noteq> []" "[''A'', ''B''] \<noteq> []" "0 < (3 :: nat)" by simp_all
  have u: "\<forall>(quarter, by_chip)\<in>set ?results.
           py_dict by_chip \<and> map fst by_chip = [''A'', ''B''] \<and>
           (\<forall>(chip_type, arr)\<in>set by_chip. length arr = 3)"
    by (simp add: py_dict_def)
  have t: "percentile_text format_thousands (elementwise_sum 3 [[0, 3000, 0], [0, 0, 3000]])
        = Inr ''3k (0k-3k)''"
    by (simp only: elementwise_sum_example percentile_text_values)
  from summarize_total_sums_before_percentiles [OF d ne u, of format_thousands]
  obtain frame where
    run: "summarize_quarterly_by_chip ?results format_thousands = Inr frame" and
    len: "length (records frame) = length ?results" and
    tot: "\<forall>i<length ?results. \<exists>total_text.
            percentile_text format_thousands
              (elementwise_sum 3 (map snd (snd (?results ! i)))) = Inr total_text \<and>
            dict_lookup (records frame ! i) ''Total'' = Inr total_text"
    by blast
  from tot [rule_format, of 0] t have "dict_lookup (records frame ! 0) ''Total'' = Inr ''3k (0k-3k)''"
    by simp
  with d run len t show ?thesis by auto
qed

end
